theory Spec2Isabelle
  imports Main "HOL-Library.Monad_Syntax"
begin

section \<open>Raw storage\<close>

text \<open>
  \<^verbatim>\<open>vector.hpp\<close> manages its own storage: \<^verbatim>\<open>::operator new\<close> hands out a buffer of raw
  slots, placement \<^verbatim>\<open>new\<close> constructs an element in a slot, an explicit destructor call
  ends it, \<^verbatim>\<open>::operator delete\<close> returns the buffer.

  The model is a store of allocations. A pointer \<^verbatim>\<open>T*\<close> names an allocation
  (\<open>region\<close>, counted from 1; region 0 is no allocation, where \<^verbatim>\<open>nullptr\<close> lives) and
  an element offset into it; pointer arithmetic moves the offset. A slot is \<open>None\<close>
  while it holds no constructed element and \<open>Some x\<close> while it holds the element
  \<open>x\<close>. Elements are values: copying and moving an element read its value, and a
  moved-from element keeps the value it had.

  Constructing an element (placement \<^verbatim>\<open>new\<close>) needs a slot inside a live allocation.
  Everything that works on an element (reading it, assigning to it, printing it,
  destroying it) needs a constructed element in the slot. Anything else is
  undefined behaviour in C++, which the primitives report as \<open>None\<close>.

  \<^verbatim>\<open>SizeType\<close> (\<^verbatim>\<open>std::size_t\<close>) is 64 bits wide. The byte count \<^verbatim>\<open>capacity * sizeof(T)\<close>
  that \<^verbatim>\<open>Allocate\<close> and \<^verbatim>\<open>Deallocate\<close> compute wraps around at \<open>2 ^ 64\<close> (\<open>size_t_times\<close>),
  with \<^verbatim>\<open>sizeof(T)\<close> a parameter \<open>sizeof_T\<close> of every function that allocates. So does
  a negative \<^verbatim>\<open>DifferenceType\<close> (\<^verbatim>\<open>std::ptrdiff_t\<close>, an integer) converted to \<^verbatim>\<open>SizeType\<close>,
  and one subtracted from a \<^verbatim>\<open>SizeType\<close> that is zero: they give \<open>2 ^ 64\<close> plus the
  negative value (\<open>to_SizeType\<close>). The counts \<^verbatim>\<open>m_Size\<close> and \<^verbatim>\<open>m_Capacity\<close> themselves are
  naturals: \<^verbatim>\<open>m_Capacity * 2\<close> and \<^verbatim>\<open>++m_Size\<close> would wrap only on a vector that holds a
  buffer of \<open>2 ^ 63\<close> slots. The store never runs out of memory: \<^verbatim>\<open>::operator new\<close>
  returns a buffer of the number of bytes it is asked for.
\<close>

datatype Pointer = Pointer (region: nat) (offset: int)

type_synonym 'a slot = "'a option"

record 'a machine =
  blocks :: "'a slot list option list"
  cout :: "'a list"

definition nullptr :: Pointer where
  "nullptr = Pointer 0 0"

definition ptr_add :: "Pointer \<Rightarrow> int \<Rightarrow> Pointer" where
  "ptr_add p n = Pointer (region p) (offset p + n)"

text \<open>The difference of two pointers is defined inside one allocation only.\<close>

definition ptr_diff :: "Pointer \<Rightarrow> Pointer \<Rightarrow> int option" where
  "ptr_diff p q = (if region p = region q then Some (offset p - offset q) else None)"

definition to_SizeType :: "int \<Rightarrow> nat" where
  "to_SizeType i = (if i < 0 then nat (i + 2 ^ 64) else nat i)"

definition block_at :: "'a machine \<Rightarrow> nat \<Rightarrow> 'a slot list option" where
  "block_at h r =
     (case r of 0 \<Rightarrow> None
      | Suc k \<Rightarrow> if k < length (blocks h) then blocks h ! k else None)"

definition slot_at :: "'a machine \<Rightarrow> Pointer \<Rightarrow> 'a slot option" where
  "slot_at h p =
     (case block_at h (region p) of None \<Rightarrow> None
      | Some b \<Rightarrow>
          if 0 \<le> offset p \<and> offset p < int (length b)
          then Some (b ! nat (offset p)) else None)"

definition write_slot :: "'a machine \<Rightarrow> Pointer \<Rightarrow> 'a slot \<Rightarrow> 'a machine option" where
  "write_slot h p s =
     (case block_at h (region p) of None \<Rightarrow> None
      | Some b \<Rightarrow>
          if 0 \<le> offset p \<and> offset p < int (length b)
          then Some (h\<lparr>blocks := (blocks h)[region p - 1 := Some (b[nat (offset p) := s])]\<rparr>)
          else None)"

text \<open>\<^verbatim>\<open>new (&p) ValueType(x)\<close>\<close>

definition construct :: "'a machine \<Rightarrow> Pointer \<Rightarrow> 'a \<Rightarrow> 'a machine option" where
  "construct h p x = write_slot h p (Some x)"

text \<open>Reading the element \<^verbatim>\<open>*p\<close>.\<close>

definition load :: "'a machine \<Rightarrow> Pointer \<Rightarrow> 'a option" where
  "load h p = (case slot_at h p of Some (Some x) \<Rightarrow> Some x | _ \<Rightarrow> None)"

text \<open>\<^verbatim>\<open>*p = x\<close>: the assignment operator of the element at \<open>p\<close>.\<close>

definition assign :: "'a machine \<Rightarrow> Pointer \<Rightarrow> 'a \<Rightarrow> 'a machine option" where
  "assign h p x = (case load h p of None \<Rightarrow> None | Some y \<Rightarrow> write_slot h p (Some x))"

text \<open>\<^verbatim>\<open>p->~ValueType()\<close>: the destructor of the element at \<open>p\<close>.\<close>

definition destroy :: "'a machine \<Rightarrow> Pointer \<Rightarrow> 'a machine option" where
  "destroy h p = (case load h p of None \<Rightarrow> None | Some y \<Rightarrow> write_slot h p None)"

text \<open>\<^verbatim>\<open>std::cout << *p << std::endl\<close>: the element at \<open>p\<close> is read and printed.\<close>

definition print :: "'a machine \<Rightarrow> Pointer \<Rightarrow> 'a machine option" where
  "print h p =
     (case load h p of None \<Rightarrow> None
      | Some x \<Rightarrow> Some (h\<lparr>cout := cout h @ [x]\<rparr>))"

text \<open>
  An argument passed by reference (\<^verbatim>\<open>const T&\<close> or \<^verbatim>\<open>T&&\<close>) is bound to an element
  that lives outside the store (a temporary or a local variable, which no operation
  on a vector touches) or to an element in the store, such as \<^verbatim>\<open>v[0]\<close>. It is read
  where the source reads it.
\<close>

datatype 'a reference = Local 'a | Stored Pointer

definition read_ref :: "'a machine \<Rightarrow> 'a reference \<Rightarrow> 'a option" where
  "read_ref h r = (case r of Local x \<Rightarrow> Some x | Stored p \<Rightarrow> load h p)"

section \<open>The class \<^verbatim>\<open>Vector\<close>\<close>

record Vector =
  m_Data :: Pointer
  m_Size :: nat
  m_Capacity :: nat

record Iterator =
  m_Ptr :: Pointer

text \<open>
  The exceptions the class throws: \<^verbatim>\<open>std::out_of_range\<close> (the OutOfRange condition)
  and \<^verbatim>\<open>std::invalid_argument\<close> (the InvalidCapacity condition).
\<close>

datatype exn = out_of_range | invalid_argument

text \<open>
  What a call does: it returns a value, or throws, either way leaving a state
  behind; or it runs into undefined behaviour.
\<close>

datatype ('s, 'r) outcome = Return 's 'r | Throw 's exn | Undefined

definition INITIAL_CAPACITY :: nat where
  "INITIAL_CAPACITY = 1"

subsection \<open>Allocation\<close>

text \<open>Multiplication of two \<^verbatim>\<open>std::size_t\<close> values.\<close>

definition size_t_times :: "nat \<Rightarrow> nat \<Rightarrow> nat" where
  "size_t_times a b = (a * b) mod 2 ^ 64"

text \<open>
  \<^verbatim>\<open>Allocate\<close>: \<^verbatim>\<open>::operator new(capacity * sizeof(T))\<close> returns a fresh buffer of that
  many bytes, which has room for as many elements as \<^verbatim>\<open>sizeof(T)\<close> goes into the byte
  count. When the multiplication wraps, these are fewer than \<open>capacity\<close>.
\<close>

definition Allocate :: "nat \<Rightarrow> 'a machine \<Rightarrow> nat \<Rightarrow> 'a machine \<times> Pointer" where
  "Allocate sizeof_T h capacity =
     (let bytes = size_t_times capacity sizeof_T
      in (h\<lparr>blocks := blocks h @ [Some (replicate (bytes div sizeof_T) None)]\<rparr>,
          Pointer (Suc (length (blocks h))) 0))"

text \<open>
  \<^verbatim>\<open>Deallocate\<close>: the sized \<^verbatim>\<open>::operator delete(m_Data, m_Capacity * sizeof(T))\<close> needs
  the start of a live allocation and its size; a buffer being kept as its slots,
  the byte count has to give the number of slots of the allocation.
\<close>

definition Deallocate :: "nat \<Rightarrow> 'a machine \<Rightarrow> Vector \<Rightarrow> 'a machine option" where
  "Deallocate sizeof_T h v =
     (case block_at h (region (m_Data v)) of None \<Rightarrow> None
      | Some b \<Rightarrow>
          if offset (m_Data v) = 0 \<and>
             length b = size_t_times (m_Capacity v) sizeof_T div sizeof_T
          then Some (h\<lparr>blocks := (blocks h)[region (m_Data v) - 1 := None]\<rparr>)
          else None)"

subsection \<open>Getters and element access\<close>

definition Size :: "Vector \<Rightarrow> nat" where
  "Size v = m_Size v"

definition Empty :: "Vector \<Rightarrow> bool" where
  "Empty v = (m_Size v = 0)"

definition Capacity :: "Vector \<Rightarrow> nat" where
  "Capacity v = m_Capacity v"

text \<open>\<^verbatim>\<open>operator[]\<close>: unchecked.\<close>

definition subscript :: "'a machine \<Rightarrow> Vector \<Rightarrow> nat \<Rightarrow> 'a option" where
  "subscript h v index = load h (ptr_add (m_Data v) (int index))"

definition Front :: "'a machine \<Rightarrow> Vector \<Rightarrow> 'a option" where
  "Front h v = load h (m_Data v)"

definition Back :: "'a machine \<Rightarrow> Vector \<Rightarrow> 'a option" where
  "Back h v = load h (ptr_add (ptr_add (m_Data v) (int (m_Size v))) (- 1))"

definition At :: "'a machine \<Rightarrow> Vector \<Rightarrow> nat \<Rightarrow> ('a machine \<times> Vector, 'a) outcome" where
  "At h v index =
     (if index \<ge> m_Size v then Throw (h, v) out_of_range
      else case load h (ptr_add (m_Data v) (int index)) of
             None \<Rightarrow> Undefined
           | Some x \<Rightarrow> Return (h, v) x)"

subsection \<open>The class \<^verbatim>\<open>Vector::Iterator\<close>\<close>

text \<open>
  A member function that changes the iterator it is called on returns the pair of
  the iterator afterwards and the value returned.
\<close>

definition Iterator_default :: Iterator where
  "Iterator_default = \<lparr>m_Ptr = nullptr\<rparr>"

definition Iterator_of :: "Pointer \<Rightarrow> Iterator" where
  "Iterator_of ptr = \<lparr>m_Ptr = ptr\<rparr>"

text \<open>\<^verbatim>\<open>operator++()\<close>\<close>

definition pre_increment :: "Iterator \<Rightarrow> Iterator \<times> Iterator" where
  "pre_increment this =
     (let this = this\<lparr>m_Ptr := ptr_add (m_Ptr this) 1\<rparr> in (this, this))"

text \<open>\<^verbatim>\<open>operator++(int)\<close>: makes a copy, advances, and returns \<^verbatim>\<open>*this\<close>.\<close>

definition post_increment :: "Iterator \<Rightarrow> Iterator \<times> Iterator" where
  "post_increment this =
     (let copy = this;
          this = fst (pre_increment this)
      in (this, this))"

text \<open>\<^verbatim>\<open>operator--()\<close>\<close>

definition pre_decrement :: "Iterator \<Rightarrow> Iterator \<times> Iterator" where
  "pre_decrement this =
     (let this = this\<lparr>m_Ptr := ptr_add (m_Ptr this) (- 1)\<rparr> in (this, this))"

text \<open>\<^verbatim>\<open>operator--(int)\<close>: makes a copy, calls \<^verbatim>\<open>++(*this)\<close>, and returns \<^verbatim>\<open>*this\<close>.\<close>

definition post_decrement :: "Iterator \<Rightarrow> Iterator \<times> Iterator" where
  "post_decrement this =
     (let copy = this;
          this = fst (pre_increment this)
      in (this, this))"

text \<open>\<^verbatim>\<open>operator+=\<close>, \<^verbatim>\<open>operator+\<close>, \<^verbatim>\<open>operator-=\<close>, \<^verbatim>\<open>operator-\<close> with an offset.\<close>

definition plus_assign :: "Iterator \<Rightarrow> int \<Rightarrow> Iterator \<times> Iterator" where
  "plus_assign this off =
     (let this = this\<lparr>m_Ptr := ptr_add (m_Ptr this) off\<rparr> in (this, this))"

definition Iterator_plus :: "Iterator \<Rightarrow> int \<Rightarrow> Iterator" where
  "Iterator_plus this off = (let copy = this in snd (plus_assign copy off))"

definition minus_assign :: "Iterator \<Rightarrow> int \<Rightarrow> Iterator \<times> Iterator" where
  "minus_assign this off =
     (let this = this\<lparr>m_Ptr := ptr_add (m_Ptr this) (- off)\<rparr> in (this, this))"

definition Iterator_minus :: "Iterator \<Rightarrow> int \<Rightarrow> Iterator" where
  "Iterator_minus this off = (let copy = this in snd (minus_assign copy off))"

text \<open>\<^verbatim>\<open>operator-(const Iterator&)\<close>: the distance, \<open>None\<close> where it is undefined.\<close>

definition distance :: "Iterator \<Rightarrow> Iterator \<Rightarrow> int option" where
  "distance this other = ptr_diff (m_Ptr this) (m_Ptr other)"

text \<open>\<^verbatim>\<open>operator==\<close> and \<^verbatim>\<open>operator!=\<close>\<close>

definition Iterator_eq :: "Iterator \<Rightarrow> Iterator \<Rightarrow> bool" where
  "Iterator_eq this other = (m_Ptr this = m_Ptr other)"

definition Iterator_neq :: "Iterator \<Rightarrow> Iterator \<Rightarrow> bool" where
  "Iterator_neq this other = (m_Ptr this \<noteq> m_Ptr other)"

text \<open>\<^verbatim>\<open>operator*\<close> and \<^verbatim>\<open>operator[]\<close> of the iterator.\<close>

definition deref :: "'a machine \<Rightarrow> Iterator \<Rightarrow> 'a option" where
  "deref h this = load h (m_Ptr this)"

definition Iterator_subscript :: "'a machine \<Rightarrow> Iterator \<Rightarrow> int \<Rightarrow> 'a option" where
  "Iterator_subscript h this off = deref h (Iterator_plus this off)"

definition Begin :: "Vector \<Rightarrow> Iterator" where
  "Begin v = Iterator_of (m_Data v)"

definition End :: "Vector \<Rightarrow> Iterator" where
  "End v = Iterator_of (ptr_add (m_Data v) (int (m_Size v)))"

subsection \<open>Sequencing\<close>

definition and_then ::
  "('s, 'r) outcome \<Rightarrow> ('s \<Rightarrow> 'r \<Rightarrow> ('s, 'q) outcome) \<Rightarrow> ('s, 'q) outcome" where
  "and_then m f =
     (case m of Return s r \<Rightarrow> f s r | Throw s e \<Rightarrow> Throw s e | Undefined \<Rightarrow> Undefined)"

subsection \<open>Constructors and destructor\<close>

text \<open>\<^verbatim>\<open>Vector()\<close>\<close>

definition Vector_default :: "nat \<Rightarrow> 'a machine \<Rightarrow> ('a machine, Vector) outcome" where
  "Vector_default sizeof_T h =
     (let (h, p) = Allocate sizeof_T h INITIAL_CAPACITY
      in Return h \<lparr>m_Data = p, m_Size = 0, m_Capacity = INITIAL_CAPACITY\<rparr>)"

text \<open>\<^verbatim>\<open>explicit Vector(SizeType count)\<close>\<close>

definition Vector_count :: "nat \<Rightarrow> 'a machine \<Rightarrow> nat \<Rightarrow> ('a machine, Vector) outcome" where
  "Vector_count sizeof_T h count =
     (let (h, p) = Allocate sizeof_T h count
      in Return h \<lparr>m_Data = p, m_Size = 0, m_Capacity = count\<rparr>)"







text \<open>
  \<^verbatim>\<open>Vector(Vector&& other)\<close>: the state left behind holds the store and \<open>other\<close>, the
  value returned is the new vector.
\<close>

definition Vector_move ::
  "nat \<Rightarrow> 'a machine \<Rightarrow> Vector \<Rightarrow> ('a machine \<times> Vector, Vector) outcome" where
  "Vector_move sizeof_T h other =
     (let this = \<lparr>m_Data = m_Data other, m_Size = m_Size other,
                  m_Capacity = m_Capacity other\<rparr>;
          (h, p) = Allocate sizeof_T h INITIAL_CAPACITY;
          other = other\<lparr>m_Data := p, m_Size := 0, m_Capacity := INITIAL_CAPACITY\<rparr>
      in Return (h, other) this)"

text \<open>\<^verbatim>\<open>Clear\<close>\<close>

function Clear_loop :: "'a machine \<Rightarrow> Vector \<Rightarrow> nat \<Rightarrow> 'a machine option" where
  "Clear_loop h this i =
     (if i < m_Size this
      then do {
        h \<leftarrow> destroy h (ptr_add (m_Data this) (int i));
        Clear_loop h this (i + 1)
      }
      else Some h)"
  by pat_completeness auto
termination
  by (relation "measure (\<lambda>(h, this, i). m_Size this - i)") auto

declare Clear_loop.simps [simp del]

definition Clear :: "'a machine \<Rightarrow> Vector \<Rightarrow> ('a machine \<times> Vector, unit) outcome" where
  "Clear h this =
     (case Clear_loop h this 0 of
        None \<Rightarrow> Undefined
      | Some h \<Rightarrow> Return (h, this\<lparr>m_Size := 0\<rparr>) ())"


subsection \<open>Assignment\<close>




subsection \<open>Growing the buffer\<close>

text \<open>\<^verbatim>\<open>Reallocate\<close>\<close>

function Reallocate_loop ::
  "'a machine \<Rightarrow> Vector \<Rightarrow> Pointer \<Rightarrow> nat \<Rightarrow> 'a machine option" where
  "Reallocate_loop h this newArray i =
     (if i < m_Size this
      then do {
        x \<leftarrow> load h (ptr_add (m_Data this) (int i));
        h \<leftarrow> construct h (ptr_add newArray (int i)) x;
        h \<leftarrow> destroy h (ptr_add (m_Data this) (int i));
        Reallocate_loop h this newArray (i + 1)
      }
      else Some h)"
  by pat_completeness auto
termination
  by (relation "measure (\<lambda>(h, this, newArray, i). m_Size this - i)") auto

declare Reallocate_loop.simps [simp del]

definition Reallocate ::
  "nat \<Rightarrow> 'a machine \<Rightarrow> Vector \<Rightarrow> nat \<Rightarrow> ('a machine \<times> Vector, unit) outcome" where
  "Reallocate sizeof_T h this newCapacity =
     (if newCapacity < m_Size this then Throw (h, this) invalid_argument
      else
        let (h, newArray) = Allocate sizeof_T h newCapacity
        in case do {
                  h \<leftarrow> Reallocate_loop h this newArray 0;
                  Deallocate sizeof_T h this
                } of
             None \<Rightarrow> Undefined
           | Some h \<Rightarrow>
               Return (h, this\<lparr>m_Data := newArray, m_Capacity := newCapacity\<rparr>) ())"

subsection \<open>Inserting and removing at the end\<close>

text \<open>
  \<^verbatim>\<open>PushBack(const ValueType& value)\<close> and \<^verbatim>\<open>PushBack(ValueType&& value)\<close>: both
  read the element that \<open>val\<close> refers to when they construct the new element from
  it, after the buffer has been reallocated; copying it and moving from it read
  the same value.
\<close>

definition PushBack ::
  "nat \<Rightarrow> 'a machine \<Rightarrow> Vector \<Rightarrow> 'a reference \<Rightarrow> ('a machine \<times> Vector, unit) outcome" where
  "PushBack sizeof_T h this val =
     and_then
       (if m_Size this = m_Capacity this
        then Reallocate sizeof_T h this (m_Capacity this * 2)
        else Return (h, this) ())
       (\<lambda>(h, this) _.
          case do {
                 x \<leftarrow> read_ref h val;
                 construct h (ptr_add (m_Data this) (int (m_Size this))) x
               } of
            None \<Rightarrow> Undefined
          | Some h \<Rightarrow> Return (h, this\<lparr>m_Size := m_Size this + 1\<rparr>) ())"

text \<open>\<^verbatim>\<open>PopBack\<close>\<close>

definition PopBack :: "'a machine \<Rightarrow> Vector \<Rightarrow> ('a machine \<times> Vector, unit) outcome" where
  "PopBack h this =
     (if m_Size this = 0 then Return (h, this) ()
      else
        let this = this\<lparr>m_Size := m_Size this - 1\<rparr>
        in case destroy h (ptr_add (m_Data this) (int (m_Size this))) of
             None \<Rightarrow> Undefined
           | Some h \<Rightarrow> Return (h, this) ())"

subsection \<open>Inserting and erasing at a position\<close>

text \<open>
  \<^verbatim>\<open>Insert(Iterator position, ConstReference value)\<close>. The loop counter \<open>i\<close> is a
  \<^verbatim>\<open>SizeType\<close>, so the signed \<open>index\<close> it is compared with is converted to
  \<^verbatim>\<open>SizeType\<close>; the loop prints the element in slot \<open>i\<close> before it constructs over
  it. The element that \<open>val\<close> refers to is read after the loop, when it is assigned
  to the element at \<open>index\<close>.
\<close>

function Insert_copy_loop ::
  "'a machine \<Rightarrow> Vector \<Rightarrow> int \<Rightarrow> nat \<Rightarrow> 'a machine option" where
  "Insert_copy_loop h this index i =
     (if i > to_SizeType index
      then do {
        h \<leftarrow> print h (ptr_add (m_Data this) (int i));
        x \<leftarrow> load h (ptr_add (m_Data this) (int (i - 1)));
        h \<leftarrow> construct h (ptr_add (m_Data this) (int i)) x;
        Insert_copy_loop h this index (i - 1)
      }
      else Some h)"
  by pat_completeness auto
termination
  by (relation "measure (\<lambda>(h, this, index, i). i)") auto

declare Insert_copy_loop.simps [simp del]

definition Insert_copy ::
  "nat \<Rightarrow> 'a machine \<Rightarrow> Vector \<Rightarrow> Iterator \<Rightarrow> 'a reference \<Rightarrow>
     ('a machine \<times> Vector, unit) outcome" where
  "Insert_copy sizeof_T h this position val =
     (case distance position (Begin this) of
        None \<Rightarrow> Undefined
      | Some index \<Rightarrow>
          and_then
            (if m_Size this = m_Capacity this
             then Reallocate sizeof_T h this (m_Capacity this * 2)
             else Return (h, this) ())
            (\<lambda>(h, this) _.
               case do {
                      h \<leftarrow> Insert_copy_loop h this index (m_Size this);
                      x \<leftarrow> read_ref h val;
                      assign h (ptr_add (m_Data this) index) x
                    } of
                 None \<Rightarrow> Undefined
               | Some h \<Rightarrow> Return (h, this\<lparr>m_Size := m_Size this + 1\<rparr>) ()))"

text \<open>\<^verbatim>\<open>Insert(Iterator position, ValueType&& value)\<close>\<close>

function Insert_move_loop ::
  "'a machine \<Rightarrow> Vector \<Rightarrow> int \<Rightarrow> nat \<Rightarrow> 'a machine option" where
  "Insert_move_loop h this index i =
     (if i > to_SizeType index
      then do {
        x \<leftarrow> load h (ptr_add (m_Data this) (int (i - 1)));
        h \<leftarrow> construct h (ptr_add (m_Data this) (int i)) x;
        Insert_move_loop h this index (i - 1)
      }
      else Some h)"
  by pat_completeness auto
termination
  by (relation "measure (\<lambda>(h, this, index, i). i)") auto

declare Insert_move_loop.simps [simp del]

definition Insert_move ::
  "nat \<Rightarrow> 'a machine \<Rightarrow> Vector \<Rightarrow> Iterator \<Rightarrow> 'a reference \<Rightarrow>
     ('a machine \<times> Vector, unit) outcome" where
  "Insert_move sizeof_T h this position val =
     (case distance position (Begin this) of
        None \<Rightarrow> Undefined
      | Some index \<Rightarrow>
          and_then
            (if m_Size this = m_Capacity this
             then Reallocate sizeof_T h this (m_Capacity this * 2)
             else Return (h, this) ())
            (\<lambda>(h, this) _.
               case do {
                      h \<leftarrow> Insert_move_loop h this index (m_Size this);
                      x \<leftarrow> read_ref h val;
                      assign h (ptr_add (m_Data this) index) x
                    } of
                 None \<Rightarrow> Undefined
               | Some h \<Rightarrow> Return (h, this\<lparr>m_Size := m_Size this + 1\<rparr>) ()))"

text \<open>
  \<^verbatim>\<open>Erase\<close>: the counter starts at the index converted to \<^verbatim>\<open>SizeType\<close> and runs while
  it is below \<^verbatim>\<open>m_Size - 1\<close>, which wraps when the vector is empty, as does the final
  \<^verbatim>\<open>--m_Size\<close>.
\<close>

function Erase_loop :: "'a machine \<Rightarrow> Vector \<Rightarrow> nat \<Rightarrow> 'a machine option" where
  "Erase_loop h this i =
     (if i < to_SizeType (int (m_Size this) - 1)
      then do {
        x \<leftarrow> load h (ptr_add (m_Data this) (int (i + 1)));
        h \<leftarrow> construct h (ptr_add (m_Data this) (int i)) x;
        Erase_loop h this (i + 1)
      }
      else Some h)"
  by pat_completeness auto
termination
  by (relation "measure (\<lambda>(h, this, i). to_SizeType (int (m_Size this) - 1) - i)") auto

declare Erase_loop.simps [simp del]

definition Erase ::
  "'a machine \<Rightarrow> Vector \<Rightarrow> Iterator \<Rightarrow> ('a machine \<times> Vector, unit) outcome" where
  "Erase h this position =
     (case distance position (Begin this) of
        None \<Rightarrow> Undefined
      | Some index \<Rightarrow>
          (case Erase_loop h this (to_SizeType index) of
             None \<Rightarrow> Undefined
           | Some h \<Rightarrow>
               Return (h, this\<lparr>m_Size := to_SizeType (int (m_Size this) - 1)\<rparr>) ()))"

section \<open>What a vector holds\<close>

text \<open>
  The storage invariant of the class: \<^verbatim>\<open>m_Data\<close> is the start of a live allocation of
  \<^verbatim>\<open>m_Capacity\<close> slots, of which the first \<^verbatim>\<open>m_Size\<close> hold elements.
\<close>

definition valid :: "'a machine \<Rightarrow> Vector \<Rightarrow> bool" where
  "valid h v =
     (case block_at h (region (m_Data v)) of
        None \<Rightarrow> False
      | Some b \<Rightarrow>
          offset (m_Data v) = 0 \<and> length b = m_Capacity v \<and> m_Size v \<le> m_Capacity v \<and>
          list_all (\<lambda>s. s \<noteq> None) (take (m_Size v) b))"

text \<open>The sequence of elements of a vector: its slots below \<^verbatim>\<open>m_Size\<close>, in order.\<close>

definition elems :: "'a machine \<Rightarrow> Vector \<Rightarrow> 'a list" where
  "elems h v =
     (case block_at h (region (m_Data v)) of
        None \<Rightarrow> []
      | Some b \<Rightarrow> map the (take (m_Size v) b))"

text \<open>A store with no allocation and nothing printed.\<close>

definition empty_machine :: "'a machine" where
  "empty_machine = \<lparr>blocks = [], cout = []\<rparr>"

text \<open>
  The byte size of \<open>n\<close> elements is a \<^verbatim>\<open>std::size_t\<close> value: \<^verbatim>\<open>n * sizeof(T)\<close> does not
  wrap. It holds of the capacity of every buffer that has as many slots as the
  capacity says.
\<close>

definition fits :: "nat \<Rightarrow> nat \<Rightarrow> bool" where
  "fits sizeof_T n \<longleftrightarrow> 0 < sizeof_T \<and> n * sizeof_T < 2 ^ 64"

text \<open>The element that a reference is bound to does not lie in the buffer of \<open>v\<close>.\<close>

definition outside :: "'a reference \<Rightarrow> Vector \<Rightarrow> bool" where
  "outside r v = (case r of Local x \<Rightarrow> True | Stored p \<Rightarrow> region p \<noteq> region (m_Data v))"

text \<open>A sequence of \<^verbatim>\<open>PushBack\<close> calls, one per argument in \<open>vals\<close>, in order.\<close>

fun PushBack_all ::
  "nat \<Rightarrow> 'a machine \<Rightarrow> Vector \<Rightarrow> 'a reference list \<Rightarrow> ('a machine \<times> Vector, unit) outcome" where
  "PushBack_all sizeof_T h v [] = Return (h, v) ()"
| "PushBack_all sizeof_T h v (val # vals) =
     and_then (PushBack sizeof_T h v val) (\<lambda>(h, v) _. PushBack_all sizeof_T h v vals)"

text \<open>
  The state in which a default-constructed vector of characters has had \<open>A\<close>, \<open>B\<close>
  and \<open>C\<close> pushed (lemma \<open>ABC_state\<close> below): two buffers outgrown and freed, and
  the third, of four slots, in use.
\<close>

definition ABC_machine :: "char machine" where
  "ABC_machine =
     \<lparr>blocks = [None, None, Some [Some CHR ''A'', Some CHR ''B'', Some CHR ''C'', None]],
      cout = []\<rparr>"

definition ABC_vector :: Vector where
  "ABC_vector = \<lparr>m_Data = Pointer 3 0, m_Size = 3, m_Capacity = 4\<rparr>"

text \<open>
  The same for a vector of 4-byte integers that has had 1, 2 and 3 pushed (lemma
  \<open>numbers_state\<close> below).
\<close>

definition numbers_machine :: "int machine" where
  "numbers_machine =
     \<lparr>blocks = [None, None, Some [Some 1, Some 2, Some 3, None]], cout = []\<rparr>"

definition numbers_vector :: Vector where
  "numbers_vector = \<lparr>m_Data = Pointer 3 0, m_Size = 3, m_Capacity = 4\<rparr>"

text \<open>\<^verbatim>\<open>v.PushBack(x); v.PopBack();\<close>\<close>

definition PushBack_then_PopBack ::
  "nat \<Rightarrow> 'a machine \<Rightarrow> Vector \<Rightarrow> 'a reference \<Rightarrow> ('a machine \<times> Vector, unit) outcome" where
  "PushBack_then_PopBack sizeof_T h v val =
     and_then (PushBack sizeof_T h v val) (\<lambda>(h, v) _. PopBack h v)"

text \<open>
  The state in which a default-constructed vector of characters has had \<open>A\<close> pushed
  (lemma \<open>A_state\<close> below): its one slot is taken.
\<close>

definition A_machine :: "char machine" where
  "A_machine = \<lparr>blocks = [Some [Some CHR ''A'']], cout = []\<rparr>"

definition A_vector :: Vector where
  "A_vector = \<lparr>m_Data = Pointer 1 0, m_Size = 1, m_Capacity = 1\<rparr>"

section \<open>Programs over several vectors\<close>

text \<open>The state a call leaves behind, whether it returns or throws.\<close>

definition left_behind :: "('s, 'r) outcome \<Rightarrow> 's option" where
  "left_behind m =
     (case m of Return s r \<Rightarrow> Some s | Throw s e \<Rightarrow> Some s | Undefined \<Rightarrow> None)"


text \<open>
  The state in which a default-constructed vector of characters has had \<open>A\<close> pushed
  and has then been moved from (lemma \<open>moved_state\<close> below): the vector moved from
  comes first, the vector constructed from it second.
\<close>

definition moved_machine :: "char machine" where
  "moved_machine = \<lparr>blocks = [Some [Some CHR ''A''], Some [None]], cout = []\<rparr>"

definition moved_from :: Vector where
  "moved_from = \<lparr>m_Data = Pointer 2 0, m_Size = 0, m_Capacity = 1\<rparr>"

text \<open>
  What a call on one vector leaves alone: going from store \<open>h\<close> to \<open>h'\<close>, no
  allocation is forgotten and every allocation of \<open>h\<close> other than \<open>r\<close> is as it was.
\<close>

definition kept :: "'a machine \<Rightarrow> 'a machine \<Rightarrow> nat \<Rightarrow> bool" where
  "kept h h' r \<longleftrightarrow>
     length (blocks h) \<le> length (blocks h') \<and>
     (\<forall>q. q \<noteq> r \<and> q \<le> length (blocks h) \<longrightarrow> block_at h' q = block_at h q)"

section \<open>Properties of the store\<close>

lemma block_at_fresh: "length (blocks h) < r \<Longrightarrow> block_at h r = None"
  by (cases r) (auto simp: block_at_def)

lemma write_slot_block:
  assumes "block_at h r = Some b" and "i < length b"
  shows "\<exists>h'. write_slot h (Pointer r (int i)) s = Some h' \<and>
           block_at h' = (block_at h)(r := Some (b[i := s])) \<and>
           cout h' = cout h \<and> length (blocks h') = length (blocks h)"
proof -
  from assms(1) obtain k where r: "r = Suc k" and k: "k < length (blocks h)"
    and b: "blocks h ! k = Some b"
    by (cases r) (auto simp: block_at_def split: if_splits)
  let ?h = "h\<lparr>blocks := (blocks h)[k := Some (b[i := s])]\<rparr>"
  have "write_slot h (Pointer r (int i)) s = Some ?h"
    using assms r by (simp add: write_slot_def)
  moreover have "block_at ?h = (block_at h)(r := Some (b[i := s]))"
    using r k by (auto simp: block_at_def fun_eq_iff nth_list_update split: nat.splits)
  ultimately show ?thesis by simp
qed

lemma slot_at_block:
  "block_at h r = Some b \<Longrightarrow> i < length b \<Longrightarrow> slot_at h (Pointer r (int i)) = Some (b ! i)"
  by (simp add: slot_at_def)

lemma load_block:
  "block_at h r = Some b \<Longrightarrow> i < length b \<Longrightarrow> load h (Pointer r (int i)) = b ! i"
  by (simp add: load_def slot_at_def split: option.splits)

lemma destroy_block:
  assumes "block_at h r = Some b" and "i < length b" and "b ! i \<noteq> None"
  shows "\<exists>h'. destroy h (Pointer r (int i)) = Some h' \<and>
           block_at h' = (block_at h)(r := Some (b[i := None])) \<and>
           cout h' = cout h \<and> length (blocks h') = length (blocks h)"
  using write_slot_block [OF assms(1,2), of None] load_block [OF assms(1,2)] assms(3)
  by (auto simp: destroy_def)

lemma assign_block:
  assumes "block_at h r = Some b" and "i < length b" and "b ! i \<noteq> None"
  shows "\<exists>h'. assign h (Pointer r (int i)) x = Some h' \<and>
           block_at h' = (block_at h)(r := Some (b[i := Some x])) \<and>
           cout h' = cout h \<and> length (blocks h') = length (blocks h)"
  using write_slot_block [OF assms(1,2), of "Some x"] load_block [OF assms(1,2)] assms(3)
  by (auto simp: assign_def)

lemma fits_slots: "fits sizeof_T n \<Longrightarrow> size_t_times n sizeof_T div sizeof_T = n"
  by (simp add: fits_def size_t_times_def)

lemma fits_mono: "fits sizeof_T n \<Longrightarrow> m \<le> n \<Longrightarrow> fits sizeof_T m"
  unfolding fits_def by (metis le_less_trans mult_le_mono1)

lemma Allocate_slots:
  "Allocate sizeof_T h n = (h', p) \<Longrightarrow>
     p = Pointer (Suc (length (blocks h))) 0 \<and>
     block_at h' = (block_at h)
       (Suc (length (blocks h)) :=
          Some (replicate (size_t_times n sizeof_T div sizeof_T) None)) \<and>
     cout h' = cout h \<and> length (blocks h') = Suc (length (blocks h))"
  by (auto simp: Allocate_def Let_def block_at_def fun_eq_iff nth_append split: nat.splits)

lemma Allocate_block:
  "fits sizeof_T n \<Longrightarrow> Allocate sizeof_T h n = (h', p) \<Longrightarrow>
     p = Pointer (Suc (length (blocks h))) 0 \<and>
     block_at h' = (block_at h)(Suc (length (blocks h)) := Some (replicate n None)) \<and>
     cout h' = cout h \<and> length (blocks h') = Suc (length (blocks h))"
  using Allocate_slots [of sizeof_T h n h' p] by (simp add: fits_slots)

lemma Deallocate_block:
  assumes "block_at h r = Some b" and "m_Data v = Pointer r 0" and "length b = m_Capacity v"
    and "fits sizeof_T (m_Capacity v)"
  shows "\<exists>h'. Deallocate sizeof_T h v = Some h' \<and> block_at h' = (block_at h)(r := None) \<and>
           cout h' = cout h \<and> length (blocks h') = length (blocks h)"
proof -
  from assms(1) obtain k where r: "r = Suc k" and k: "k < length (blocks h)"
    by (cases r) (auto simp: block_at_def split: if_splits)
  let ?h = "h\<lparr>blocks := (blocks h)[k := None]\<rparr>"
  have "Deallocate sizeof_T h v = Some ?h"
    using assms r by (simp add: Deallocate_def fits_slots)
  moreover have "block_at ?h = (block_at h)(r := None)"
    using r k by (auto simp: block_at_def fun_eq_iff nth_list_update split: nat.splits)
  ultimately show ?thesis by simp
qed

lemma ptr_add_base [simp]: "ptr_add (Pointer r 0) n = Pointer r n"
  by (simp add: ptr_add_def)

section \<open>Properties of the storage invariant\<close>

lemma validD:
  assumes "valid h v"
  shows "\<exists>r b. m_Data v = Pointer r 0 \<and> block_at h r = Some b \<and>
           length b = m_Capacity v \<and> m_Size v \<le> m_Capacity v \<and>
           (\<forall>j<m_Size v. b ! j \<noteq> None)"
proof -
  obtain r off where p: "m_Data v = Pointer r off" by (cases "m_Data v")
  with assms show ?thesis
    by (auto simp: valid_def list_all_length split: option.splits)
qed

lemma validI:
  assumes "m_Data v = Pointer r 0" and "block_at h r = Some b"
    and "length b = m_Capacity v" and "m_Size v \<le> m_Capacity v"
    and "\<And>j. j < m_Size v \<Longrightarrow> b ! j \<noteq> None"
  shows "valid h v"
  using assms by (auto simp: valid_def list_all_length)

lemma elems_block:
  "m_Data v = Pointer r 0 \<Longrightarrow> block_at h r = Some b \<Longrightarrow> elems h v = map the (take (m_Size v) b)"
  by (simp add: elems_def)

lemma length_elems: "valid h v \<Longrightarrow> length (elems h v) = m_Size v"
  by (auto dest!: validD simp: elems_block)

lemma subscript_valid:
  assumes "valid h v" and "i < m_Size v"
  shows "subscript h v i = Some (elems h v ! i)"
proof -
  from validD [OF assms(1)] obtain r b where *: "m_Data v = Pointer r 0"
    "block_at h r = Some b" "length b = m_Capacity v" "m_Size v \<le> m_Capacity v"
    "\<forall>j<m_Size v. b ! j \<noteq> None"
    by blast
  with assms(2) have "b ! i \<noteq> None" "i < length b" by auto
  with * assms(2) show ?thesis
    by (auto simp: subscript_def load_block elems_block)
qed

text \<open>The equations that run a call on a concrete state.\<close>

lemmas run_simps =
  and_then_def Vector_default_def Vector_count_def Vector_move_def Allocate_def
  Deallocate_def INITIAL_CAPACITY_def empty_machine_def size_t_times_def
  PushBack_def PopBack_def PushBack_then_PopBack_def Reallocate_def Reallocate_loop.simps
  Insert_copy_def Insert_copy_loop.simps Insert_move_def Insert_move_loop.simps
  read_ref_def construct_def assign_def destroy_def print_def load_def write_slot_def
  slot_at_def block_at_def ptr_add_def ptr_diff_def distance_def Begin_def Iterator_of_def
  Iterator_plus_def plus_assign_def to_SizeType_def left_behind_def Let_def

lemma ABC_state:
  "and_then (case Vector_default 1 empty_machine of
               Return h v \<Rightarrow> Return (h, v) () | _ \<Rightarrow> Undefined)
     (\<lambda>(h, v) _. PushBack_all 1 h v [Local CHR ''A'', Local CHR ''B'', Local CHR ''C'']) =
   Return (ABC_machine, ABC_vector) ()"
  by (simp add: run_simps ABC_machine_def ABC_vector_def) (simp add: eval_nat_numeral)

lemma numbers_state:
  "and_then (case Vector_default 4 empty_machine of
               Return h v \<Rightarrow> Return (h, v) () | _ \<Rightarrow> Undefined)
     (\<lambda>(h, v) _. PushBack_all 4 h v [Local 1, Local 2, Local 3]) =
   Return (numbers_machine, numbers_vector) ()"
  by (simp add: run_simps numbers_machine_def numbers_vector_def) (simp add: eval_nat_numeral)

lemma numbers_valid: "valid numbers_machine numbers_vector"
  by (simp add: valid_def numbers_machine_def numbers_vector_def block_at_def)

lemma numbers_elems: "elems numbers_machine numbers_vector = [1, 2, 3]"
  by (simp add: elems_def numbers_machine_def numbers_vector_def block_at_def)

lemma ABC_valid: "valid ABC_machine ABC_vector"
  by (simp add: valid_def ABC_machine_def ABC_vector_def block_at_def)

lemma ABC_elems: "elems ABC_machine ABC_vector = [CHR ''A'', CHR ''B'', CHR ''C'']"
  by (simp add: elems_def ABC_machine_def ABC_vector_def block_at_def)

section \<open>Bounds-checked access\<close>

text \<open>
  Claim C1. \<^verbatim>\<open>At(i)\<close> throws exactly when \<open>i \<ge> Size()\<close>; what it throws is
  \<^verbatim>\<open>std::out_of_range\<close>, and it leaves the store and the vector (so its size,
  capacity and elements) as they were; on a vector that satisfies the storage
  invariant, \<^verbatim>\<open>At(i)\<close> with \<open>i < Size()\<close> returns the element at index \<open>i\<close>, again
  changing nothing.
\<close>

theorem At_checks_bounds:
  "((\<exists>s e. At h v i = Throw s e) \<longleftrightarrow> Size v \<le> i) \<and>
   (\<forall>s e. At h v i = Throw s e \<longrightarrow> s = (h, v) \<and> e = out_of_range) \<and>
   (valid h v \<and> i < Size v \<longrightarrow> At h v i = Return (h, v) (elems h v ! i))"
proof -
  have "valid h v \<Longrightarrow> i < m_Size v \<Longrightarrow> At h v i = Return (h, v) (elems h v ! i)"
    using subscript_valid [of h v i] by (simp add: At_def subscript_def)
  then show ?thesis
    by (auto simp: At_def Size_def split: option.splits)
qed

theorem At_checks_bounds_witness:
  "valid ABC_machine ABC_vector \<and> 1 < Size ABC_vector \<and>
   At ABC_machine ABC_vector 1 = Return (ABC_machine, ABC_vector) CHR ''B'' \<and>
   Size ABC_vector \<le> 3 \<and>
   At ABC_machine ABC_vector 3 = Throw (ABC_machine, ABC_vector) out_of_range"
proof -
  have "Size ABC_vector = 3"
    by (simp add: Size_def ABC_vector_def)
  with At_checks_bounds [of ABC_machine ABC_vector 1]
    At_checks_bounds [of ABC_machine ABC_vector 3] ABC_valid ABC_elems
  show ?thesis by auto
qed

section \<open>Cursors\<close>

lemma pre_increment_moves:
  "m_Ptr (fst (pre_increment c)) = ptr_add (m_Ptr c) 1 \<and>
   distance (fst (pre_increment c)) c = Some 1"
  by (simp add: pre_increment_def distance_def ptr_diff_def ptr_add_def Let_def)

lemma post_increment_moves:
  "m_Ptr (fst (post_increment c)) = ptr_add (m_Ptr c) 1 \<and>
   distance (fst (post_increment c)) c = Some 1"
  by (simp add: post_increment_def pre_increment_def distance_def ptr_diff_def ptr_add_def
      Let_def)

lemma pre_decrement_moves:
  "m_Ptr (fst (pre_decrement c)) = ptr_add (m_Ptr c) (- 1) \<and>
   distance (fst (pre_decrement c)) c = Some (- 1)"
  by (simp add: pre_decrement_def distance_def ptr_diff_def ptr_add_def Let_def)

text \<open>
  Claim C8 says that each of the four step operations moves the cursor one position
  in its direction. Three do (the lemmas above). The postfix retreat
  \<^verbatim>\<open>operator--(int)\<close> calls \<^verbatim>\<open>++(*this)\<close>: it moves every cursor one position towards
  the end, so that its distance from where it stood is \<open>1\<close>, not \<open>-1\<close>, and a cursor
  at index 1 of a vector is at index 2 afterwards.
\<close>

theorem post_decrement_advances:
  "fst (post_decrement c) = fst (pre_increment c) \<and>
   m_Ptr (fst (post_decrement c)) = ptr_add (m_Ptr c) 1 \<and>
   distance (fst (post_decrement c)) c = Some 1 \<and>
   distance (fst (post_decrement (Iterator_plus (Begin ABC_vector) 1))) (Begin ABC_vector)
     = Some 2"
  by (simp add: post_decrement_def pre_increment_def distance_def ptr_diff_def ptr_add_def
      Let_def Iterator_plus_def plus_assign_def Begin_def Iterator_of_def ABC_vector_def)

text \<open>
  Claim C9. The distance from \<^verbatim>\<open>Begin()\<close> to \<^verbatim>\<open>End()\<close> is \<^verbatim>\<open>Size()\<close>, and the two
  cursors are equal exactly when the vector is empty.
\<close>

theorem End_minus_Begin:
  "distance (End v) (Begin v) = Some (int (Size v)) \<and>
   (Iterator_eq (Begin v) (End v) \<longleftrightarrow> Empty v)"
  by (cases "m_Data v")
    (simp add: distance_def ptr_diff_def End_def Begin_def Iterator_of_def ptr_add_def
      Size_def Iterator_eq_def Empty_def)

text \<open>
  Claim C10. The cursor that postfix advance returns is the cursor after the
  advance: it is the one prefix advance returns, it equals the advanced cursor, and
  it differs from the cursor before the call.
\<close>

theorem post_increment_returns_advanced:
  "snd (post_increment c) = snd (pre_increment c) \<and>
   Iterator_eq (snd (post_increment c)) (snd (pre_increment c)) \<and>
   Iterator_eq (snd (post_increment c)) (fst (post_increment c)) \<and>
   \<not> Iterator_eq (snd (post_increment c)) c"
  by (cases "m_Ptr c")
    (simp add: post_increment_def pre_increment_def Iterator_eq_def ptr_add_def Let_def)

section \<open>Growing the buffer\<close>

lemma moved_out_step:
  assumes "i < n" and "n \<le> length bo"
  shows "take (Suc i) (bo[i := None]) @ replicate (n - Suc i) None @ drop n (bo[i := None]) =
         take i bo @ replicate (n - i) None @ drop n bo"
proof -
  have "n - i = Suc (n - Suc i)" using assms by simp
  then show ?thesis
    using assms by (simp add: take_Suc_conv_app_nth)
qed

lemma moved_in_step:
  assumes "i < n" and "n \<le> length bo" and "n \<le> length bn"
  shows "take (Suc i) (bn[i := bo ! i]) @ take (n - Suc i) (drop (Suc i) (bo[i := s])) @
           drop n (bn[i := bo ! i]) =
         take i bn @ take (n - i) (drop i bo) @ drop n bn"
proof -
  have "n - i = Suc (n - Suc i)" using assms by simp
  moreover have "drop i bo = bo ! i # drop (Suc i) bo"
    using assms by (simp add: Cons_nth_drop_Suc)
  ultimately show ?thesis
    using assms by (simp add: take_Suc_conv_app_nth)
qed

lemma Reallocate_loop_blocks:
  assumes "m_Data v = Pointer ro 0" and "block_at h ro = Some bo" and "block_at h rn = Some bn"
    and "ro \<noteq> rn" and "m_Size v \<le> length bo" and "m_Size v \<le> length bn"
    and "\<forall>j. i \<le> j \<and> j < m_Size v \<longrightarrow> bo ! j \<noteq> None" and "i \<le> m_Size v"
  shows "\<exists>h'. Reallocate_loop h v (Pointer rn 0) i = Some h' \<and>
           block_at h' = (block_at h)
             (ro := Some (take i bo @ replicate (m_Size v - i) None @ drop (m_Size v) bo),
              rn := Some (take i bn @ take (m_Size v - i) (drop i bo) @ drop (m_Size v) bn)) \<and>
           cout h' = cout h \<and> length (blocks h') = length (blocks h)"
  using assms
proof (induction "m_Size v - i" arbitrary: i h bo bn)
  case 0
  then have "i = m_Size v" by simp
  with 0 show ?case
    by (subst Reallocate_loop.simps) (auto simp: fun_eq_iff)
next
  case (Suc k)
  then have i: "i < m_Size v" by simp
  with Suc.prems obtain x where x: "bo ! i = Some x" by auto
  from i Suc.prems have ld: "load h (Pointer ro (int i)) = Some x"
    by (simp add: load_block x)
  from write_slot_block [of h rn bn i "Some x"] i Suc.prems
  obtain h1 where h1: "construct h (Pointer rn (int i)) x = Some h1"
    "block_at h1 = (block_at h)(rn := Some (bn[i := Some x]))"
    "cout h1 = cout h" "length (blocks h1) = length (blocks h)"
    by (auto simp: construct_def)
  from Suc.prems h1 have "block_at h1 ro = Some bo" by simp
  from destroy_block [OF this, of i] i Suc.prems x
  obtain h2 where h2: "destroy h1 (Pointer ro (int i)) = Some h2"
    "block_at h2 = (block_at h1)(ro := Some (bo[i := None]))"
    "cout h2 = cout h1" "length (blocks h2) = length (blocks h1)"
    by auto
  have "\<exists>h'. Reallocate_loop h2 v (Pointer rn 0) (Suc i) = Some h' \<and>
           block_at h' = (block_at h2)
             (ro := Some (take (Suc i) (bo[i := None]) @ replicate (m_Size v - Suc i) None @
                          drop (m_Size v) (bo[i := None])),
              rn := Some (take (Suc i) (bn[i := Some x]) @
                          take (m_Size v - Suc i) (drop (Suc i) (bo[i := None])) @
                          drop (m_Size v) (bn[i := Some x]))) \<and>
           cout h' = cout h2 \<and> length (blocks h') = length (blocks h2)"
  proof (rule Suc.hyps(1))
    show "k = m_Size v - Suc i" using Suc.hyps(2) by simp
    show "m_Data v = Pointer ro 0" by fact
    show "block_at h2 ro = Some (bo[i := None])" using h2 by simp
    show "block_at h2 rn = Some (bn[i := Some x])" using h2 h1 Suc.prems by simp
    show "ro \<noteq> rn" by fact
    show "m_Size v \<le> length (bo[i := None])" using Suc.prems by simp
    show "m_Size v \<le> length (bn[i := Some x])" using Suc.prems by simp
    show "\<forall>j. Suc i \<le> j \<and> j < m_Size v \<longrightarrow> bo[i := None] ! j \<noteq> None"
      using Suc.prems by auto
    show "Suc i \<le> m_Size v" using i by simp
  qed
  then obtain h' where h': "Reallocate_loop h2 v (Pointer rn 0) (Suc i) = Some h'"
    "block_at h' = (block_at h2)
             (ro := Some (take (Suc i) (bo[i := None]) @ replicate (m_Size v - Suc i) None @
                          drop (m_Size v) (bo[i := None])),
              rn := Some (take (Suc i) (bn[i := Some x]) @
                          take (m_Size v - Suc i) (drop (Suc i) (bo[i := None])) @
                          drop (m_Size v) (bn[i := Some x])))"
    "cout h' = cout h2" "length (blocks h') = length (blocks h2)"
    by blast
  have run: "Reallocate_loop h v (Pointer rn 0) i = Some h'"
    using i ld h1(1) h2(1) h'(1) Suc.prems(1)
    by (subst Reallocate_loop.simps) simp
  have "block_at h' = (block_at h)
             (ro := Some (take i bo @ replicate (m_Size v - i) None @ drop (m_Size v) bo),
              rn := Some (take i bn @ take (m_Size v - i) (drop i bo) @ drop (m_Size v) bn))"
    unfolding h'(2) h2(2) h1(2)
    using moved_out_step [of i "m_Size v" bo] moved_in_step [of i "m_Size v" bo bn None]
      i Suc.prems x
    by (auto simp: fun_eq_iff)
  with run h' h2 h1 show ?case by simp
qed


lemma block_at_Some_le: "block_at h r = Some b \<Longrightarrow> r \<le> length (blocks h) \<and> 0 < r"
  by (cases r) (auto simp: block_at_def split: if_splits)

lemma kept_refl: "kept h h r"
  by (simp add: kept_def)

lemma kept_valid:
  assumes "valid h w" and "kept h h' r" and "region (m_Data w) \<noteq> r"
  shows "valid h' w \<and> elems h' w = elems h w"
proof -
  from validD [OF assms(1)] obtain q b where *: "m_Data w = Pointer q 0"
    "block_at h q = Some b" by blast
  with assms(2,3) block_at_Some_le [of h q b] have "block_at h' q = block_at h q"
    by (simp add: kept_def)
  with * assms(1) show ?thesis
    by (simp add: valid_def elems_def)
qed

lemma Reallocate_returns:
  assumes "valid h v" and "m_Size v \<le> newCapacity"
    and "fits sizeof_T (m_Capacity v)" and "fits sizeof_T newCapacity"
  shows "\<exists>h' v'. Reallocate sizeof_T h v newCapacity = Return (h', v') () \<and>
           v' = v\<lparr>m_Data := Pointer (Suc (length (blocks h))) 0, m_Capacity := newCapacity\<rparr> \<and>
           valid h' v' \<and> elems h' v' = elems h v \<and>
           kept h h' (region (m_Data v)) \<and> length (blocks h') = Suc (length (blocks h))"
proof -
  from validD [OF assms(1)] obtain ro bo where v: "m_Data v = Pointer ro 0"
    "block_at h ro = Some bo" "length bo = m_Capacity v" "m_Size v \<le> m_Capacity v"
    "\<forall>j<m_Size v. bo ! j \<noteq> None"
    by blast
  let ?rn = "Suc (length (blocks h))"
  let ?bn = "replicate newCapacity (None :: 'a option)"
  obtain h1 p where al: "Allocate sizeof_T h newCapacity = (h1, p)"
    by (cases "Allocate sizeof_T h newCapacity")
  from Allocate_block [OF assms(4) al]
  have p: "p = Pointer ?rn 0" and h1: "block_at h1 = (block_at h)(?rn := Some ?bn)"
    "cout h1 = cout h" "length (blocks h1) = Suc (length (blocks h))"
    by simp_all
  from v(2) have ro: "ro \<le> length (blocks h)" "ro \<noteq> ?rn"
    using block_at_Some_le [of h ro bo] by auto
  have "\<exists>h2. Reallocate_loop h1 v (Pointer ?rn 0) 0 = Some h2 \<and>
           block_at h2 = (block_at h1)
             (ro := Some (take 0 bo @ replicate (m_Size v - 0) None @ drop (m_Size v) bo),
              ?rn := Some (take 0 ?bn @ take (m_Size v - 0) (drop 0 bo) @ drop (m_Size v) ?bn)) \<and>
           cout h2 = cout h1 \<and> length (blocks h2) = length (blocks h1)"
    using v ro h1 assms(2) by (intro Reallocate_loop_blocks) auto
  then obtain h2 where h2: "Reallocate_loop h1 v (Pointer ?rn 0) 0 = Some h2"
    "block_at h2 = (block_at h1)
             (ro := Some (replicate (m_Size v) None @ drop (m_Size v) bo),
              ?rn := Some (take (m_Size v) bo @ drop (m_Size v) ?bn))"
    "cout h2 = cout h1" "length (blocks h2) = length (blocks h1)"
    by auto
  have "block_at h2 ro = Some (replicate (m_Size v) None @ drop (m_Size v) bo)"
    using h2(2) ro by simp
  moreover have "length (replicate (m_Size v) (None :: 'a option) @ drop (m_Size v) bo)
      = m_Capacity v"
    using v by simp
  ultimately obtain h3 where h3: "Deallocate sizeof_T h2 v = Some h3"
    "block_at h3 = (block_at h2)(ro := None)" "cout h3 = cout h2"
    "length (blocks h3) = length (blocks h2)"
    using Deallocate_block [of h2 ro _ v sizeof_T] v(1) assms(3) by blast
  let ?v' = "v\<lparr>m_Data := Pointer ?rn 0, m_Capacity := newCapacity\<rparr>"
  have run: "Reallocate sizeof_T h v newCapacity = Return (h3, ?v') ()"
    using assms(2) al p h2(1) h3(1) by (simp add: Reallocate_def)
  have bn: "block_at h3 ?rn = Some (take (m_Size v) bo @ drop (m_Size v) ?bn)"
    using h3(2) h2(2) ro by simp
  have val: "valid h3 ?v'"
    using v assms(2) by (intro validI [OF _ bn]) (auto simp: nth_append)
  have el: "elems h3 ?v' = elems h v"
    using v by (simp add: elems_block [OF _ bn] elems_block [OF v(1,2)])
  have "kept h h3 (region (m_Data v))"
    using v(1) h3 h2 h1 by (auto simp: kept_def)
  with run val el h3 h2 h1 show ?thesis by simp
qed

text \<open>
  Claim C3 says that \<^verbatim>\<open>Reallocate(newCapacity)\<close> succeeds for every \<open>newCapacity\<close> that
  is at least the size. The byte count \<^verbatim>\<open>newCapacity * sizeof(T)\<close> wraps: on the vector
  of 4-byte integers that holds 1, 2, 3, \<^verbatim>\<open>Reallocate\<close> with \<open>2 ^ 62\<close> gets a buffer of
  0 bytes and moves the first element past its end.
\<close>

theorem Reallocate_wraps_counterexample:
  "Size numbers_vector \<le> 2 ^ 62 \<and> valid numbers_machine numbers_vector \<and>
   Reallocate 4 numbers_machine numbers_vector (2 ^ 62) = Undefined"
  by (simp add: run_simps Size_def valid_def numbers_machine_def numbers_vector_def)

text \<open>
  Claim C3, amended. \<^verbatim>\<open>Reallocate(newCapacity)\<close> with \<open>newCapacity\<close> below the size
  throws \<^verbatim>\<open>std::invalid_argument\<close> and leaves the store and the vector exactly as they
  were. On a vector that satisfies the storage invariant, with \<open>newCapacity\<close> at
  least the size and with byte sizes of the old and of the new buffer that do not
  wrap, it returns, the elements are the same sequence, the size is the same and
  the capacity is \<open>newCapacity\<close>.
\<close>

theorem Reallocate_checks_capacity:
  "(newCapacity < Size v \<longrightarrow>
      Reallocate sizeof_T h v newCapacity = Throw (h, v) invalid_argument) \<and>
   (valid h v \<and> Size v \<le> newCapacity \<and> fits sizeof_T (Capacity v) \<and>
    fits sizeof_T newCapacity \<longrightarrow>
      (\<exists>h' v'. Reallocate sizeof_T h v newCapacity = Return (h', v') () \<and> valid h' v' \<and>
         elems h' v' = elems h v \<and> Size v' = Size v \<and> Capacity v' = newCapacity))"
proof -
  have "valid h v \<Longrightarrow> m_Size v \<le> newCapacity \<Longrightarrow> fits sizeof_T (m_Capacity v) \<Longrightarrow>
      fits sizeof_T newCapacity \<Longrightarrow>
      \<exists>h' v'. Reallocate sizeof_T h v newCapacity = Return (h', v') () \<and> valid h' v' \<and>
         elems h' v' = elems h v \<and> m_Size v' = m_Size v \<and> m_Capacity v' = newCapacity"
    using Reallocate_returns [of h v newCapacity sizeof_T] by auto
  then show ?thesis
    by (auto simp: Size_def Capacity_def Reallocate_def)
qed

theorem Reallocate_checks_capacity_witness:
  "2 < Size numbers_vector \<and>
   Reallocate 4 numbers_machine numbers_vector 2
     = Throw (numbers_machine, numbers_vector) invalid_argument \<and>
   valid numbers_machine numbers_vector \<and> Size numbers_vector \<le> 3 \<and>
   fits 4 (Capacity numbers_vector) \<and> fits 4 3 \<and>
   (\<exists>h' v'. Reallocate 4 numbers_machine numbers_vector 3 = Return (h', v') () \<and>
      valid h' v' \<and> elems h' v' = [1, 2, 3] \<and> Size v' = 3 \<and> Capacity v' = 3)"
proof -
  have "Size numbers_vector = 3" "fits 4 (Capacity numbers_vector)" "fits 4 3"
    by (simp_all add: Size_def Capacity_def numbers_vector_def fits_def)
  with Reallocate_checks_capacity [of 2 numbers_vector 4 numbers_machine]
    Reallocate_checks_capacity [of 3 numbers_vector 4 numbers_machine]
    numbers_valid numbers_elems
  show ?thesis by auto
qed

section \<open>Inserting and removing at the end\<close>

lemma kept_trans:
  assumes "kept h h1 r" and "kept h1 h2 r'" and "r' = r \<or> length (blocks h) < r'"
  shows "kept h h2 r"
  using assms by (auto simp: kept_def)

lemma construct_at_end:
  assumes "valid h v" and "m_Size v < m_Capacity v"
  shows "\<exists>h'. construct h (ptr_add (m_Data v) (int (m_Size v))) x = Some h' \<and>
           valid h' (v\<lparr>m_Size := m_Size v + 1\<rparr>) \<and>
           elems h' (v\<lparr>m_Size := m_Size v + 1\<rparr>) = elems h v @ [x] \<and>
           kept h h' (region (m_Data v)) \<and> length (blocks h') = length (blocks h)"
proof -
  from validD [OF assms(1)] obtain r b where v: "m_Data v = Pointer r 0"
    "block_at h r = Some b" "length b = m_Capacity v" "m_Size v \<le> m_Capacity v"
    "\<forall>j<m_Size v. b ! j \<noteq> None"
    by blast
  let ?n = "m_Size v"
  let ?v' = "v\<lparr>m_Size := ?n + 1\<rparr>"
  from write_slot_block [OF v(2), of ?n "Some x"] assms(2) v(3)
  obtain h' where h': "construct h (Pointer r (int ?n)) x = Some h'"
    "block_at h' = (block_at h)(r := Some (b[?n := Some x]))"
    "cout h' = cout h" "length (blocks h') = length (blocks h)"
    by (auto simp: construct_def)
  have b': "block_at h' r = Some (b[?n := Some x])" using h'(2) by simp
  have "valid h' ?v'"
    using v assms(2) by (intro validI [OF _ b']) (auto simp: nth_list_update)
  moreover have "elems h' ?v' = elems h v @ [x]"
    using v assms(2)
    by (simp add: elems_block [OF _ b'] elems_block [OF v(1,2)] take_Suc_conv_app_nth)
  moreover have "kept h h' (region (m_Data v))"
    using v(1) h' by (simp add: kept_def)
  ultimately show ?thesis using h' v(1) by simp
qed

lemma read_ref_kept:
  assumes "kept h h' (region (m_Data v))" and "outside val v" and "read_ref h val = Some x"
  shows "read_ref h' val = Some x"
proof (cases val)
  case (Local y)
  with assms(3) show ?thesis by (simp add: read_ref_def)
next
  case (Stored p)
  with assms(3) have l: "load h p = Some x" by (simp add: read_ref_def)
  then obtain b where b: "block_at h (region p) = Some b"
    by (auto simp: load_def slot_at_def split: option.splits)
  from Stored assms(2) have "region p \<noteq> region (m_Data v)" by (simp add: outside_def)
  with assms(1) block_at_Some_le [OF b] have "block_at h' (region p) = block_at h (region p)"
    by (simp add: kept_def)
  then have "load h' p = load h p" by (simp add: load_def slot_at_def)
  with l Stored show ?thesis by (simp add: read_ref_def)
qed

lemma PushBack_returns:
  assumes "valid h v" and "1 \<le> m_Capacity v" and "read_ref h val = Some x"
    and "m_Size v = m_Capacity v \<longrightarrow> outside val v \<and> fits sizeof_T (m_Capacity v * 2)"
  shows "\<exists>h' v'. PushBack sizeof_T h v val = Return (h', v') () \<and> valid h' v' \<and>
           elems h' v' = elems h v @ [x] \<and> m_Size v' = Suc (m_Size v) \<and>
           m_Capacity v' =
             (if m_Size v = m_Capacity v then m_Capacity v * 2 else m_Capacity v) \<and>
           kept h h' (region (m_Data v)) \<and>
           (region (m_Data v') = region (m_Data v) \<or>
            length (blocks h) < region (m_Data v'))"
proof (cases "m_Size v = m_Capacity v")
  case True
  with assms(4) have o: "outside val v" and f: "fits sizeof_T (m_Capacity v * 2)"
    by simp_all
  from f have "fits sizeof_T (m_Capacity v)" by (rule fits_mono) simp
  from Reallocate_returns [OF assms(1) _ this f] True
  obtain h1 v1 where r: "Reallocate sizeof_T h v (m_Capacity v * 2) = Return (h1, v1) ()"
    "v1 = v\<lparr>m_Data := Pointer (Suc (length (blocks h))) 0, m_Capacity := m_Capacity v * 2\<rparr>"
    "valid h1 v1" "elems h1 v1 = elems h v" "kept h h1 (region (m_Data v))"
    "length (blocks h1) = Suc (length (blocks h))"
    by auto
  have "m_Size v1 < m_Capacity v1" using r(2) True assms(2) by simp
  from construct_at_end [OF r(3) this, of x]
  obtain h2 where c: "construct h1 (ptr_add (m_Data v1) (int (m_Size v1))) x = Some h2"
    "valid h2 (v1\<lparr>m_Size := m_Size v1 + 1\<rparr>)"
    "elems h2 (v1\<lparr>m_Size := m_Size v1 + 1\<rparr>) = elems h1 v1 @ [x]"
    "kept h1 h2 (region (m_Data v1))" "length (blocks h2) = length (blocks h1)"
    by blast
  from read_ref_kept [OF r(5) o assms(3)] have "read_ref h1 val = Some x" .
  then have "PushBack sizeof_T h v val = Return (h2, v1\<lparr>m_Size := m_Size v1 + 1\<rparr>) ()"
    using True r(1) c(1) by (simp add: PushBack_def and_then_def)
  moreover have "kept h h2 (region (m_Data v))"
    using r(5) c(4) by (rule kept_trans) (simp add: r(2))
  ultimately show ?thesis
    using c r True by simp
next
  case False
  with validD [OF assms(1)] have "m_Size v < m_Capacity v" by auto
  from construct_at_end [OF assms(1) this, of x]
  obtain h2 where c: "construct h (ptr_add (m_Data v) (int (m_Size v))) x = Some h2"
    "valid h2 (v\<lparr>m_Size := m_Size v + 1\<rparr>)"
    "elems h2 (v\<lparr>m_Size := m_Size v + 1\<rparr>) = elems h v @ [x]"
    "kept h h2 (region (m_Data v))" "length (blocks h2) = length (blocks h)"
    by blast
  have "PushBack sizeof_T h v val = Return (h2, v\<lparr>m_Size := m_Size v + 1\<rparr>) ()"
    using False c(1) assms(3) by (simp add: PushBack_def and_then_def)
  then show ?thesis
    using c False by simp
qed


lemma A_state:
  "and_then (case Vector_default 1 empty_machine of
               Return h v \<Rightarrow> Return (h, v) () | _ \<Rightarrow> Undefined)
     (\<lambda>(h, v) _. PushBack_all 1 h v [Local CHR ''A'']) =
   Return (A_machine, A_vector) ()"
  by (simp add: run_simps A_machine_def A_vector_def)




text \<open>
  On the same full vector, \<^verbatim>\<open>v.PushBack(v[0]); v.PopBack();\<close> is undefined: the argument
  is a reference to the first element, and \<^verbatim>\<open>Reallocate\<close> has destroyed that element
  and freed its buffer by the time \<^verbatim>\<open>PushBack\<close> reads it.
\<close>

lemma own_element_PushBack_then_PopBack:
  "ptr_add (m_Data A_vector) 0 = Pointer 1 0 \<and>
   subscript A_machine A_vector 0 = Some CHR ''A'' \<and>
   PushBack_then_PopBack 1 A_machine A_vector (Stored (Pointer 1 0)) = Undefined"
  by (simp add: run_simps subscript_def A_machine_def A_vector_def)



section \<open>A sequence of pushes\<close>

lemma Vector_default_returns:
  assumes "fits sizeof_T 1"
  shows "\<exists>h' v. Vector_default sizeof_T h = Return h' v \<and> valid h' v \<and> elems h' v = [] \<and>
          m_Size v = 0 \<and> m_Capacity v = 1 \<and> kept h h' 0 \<and>
          region (m_Data v) = Suc (length (blocks h)) \<and>
          length (blocks h') = Suc (length (blocks h))"
proof -
  obtain h' p where al: "Allocate sizeof_T h INITIAL_CAPACITY = (h', p)"
    by (cases "Allocate sizeof_T h INITIAL_CAPACITY")
  from assms have "fits sizeof_T INITIAL_CAPACITY" by (simp add: INITIAL_CAPACITY_def)
  from Allocate_block [OF this al]
  have p: "p = Pointer (Suc (length (blocks h))) 0"
    and h': "block_at h' = (block_at h)(Suc (length (blocks h)) := Some (replicate 1 None))"
    "cout h' = cout h" "length (blocks h') = Suc (length (blocks h))"
    by (simp_all add: INITIAL_CAPACITY_def)
  let ?v = "\<lparr>m_Data = p, m_Size = 0, m_Capacity = INITIAL_CAPACITY\<rparr>"
  have "Vector_default sizeof_T h = Return h' ?v"
    using al by (simp add: Vector_default_def)
  moreover have "valid h' ?v" "elems h' ?v = []"
    using p h' by (simp_all add: valid_def elems_def INITIAL_CAPACITY_def)
  moreover have "kept h h' 0"
    using h' by (simp add: kept_def)
  ultimately show ?thesis
    using p h' by (simp add: INITIAL_CAPACITY_def)
qed

lemma doubling_step:
  fixes n c :: nat
  assumes "\<exists>k. c = 2 ^ k \<and> (k = 0 \<or> 2 ^ (k - 1) < n)" and "n \<le> c"
  shows "\<exists>k. (if n = c then c * 2 else c) = 2 ^ k \<and> (k = 0 \<or> 2 ^ (k - 1) < Suc n)"
proof -
  from assms obtain k where k: "c = 2 ^ k" "k = 0 \<or> 2 ^ (k - 1) < n" by blast
  show ?thesis
  proof (cases "n = c")
    case True
    then have "c * 2 = 2 ^ Suc k \<and> 2 ^ (Suc k - 1) < Suc n" using k by simp
    with True show ?thesis by (intro exI [of _ "Suc k"]) simp
  next
    case False
    with k show ?thesis by (intro exI [of _ k]) auto
  qed
qed

lemma PushBack_all_returns:
  assumes "valid h v" and "1 \<le> m_Capacity v"
    and "\<exists>k. m_Capacity v = 2 ^ k \<and> (k = 0 \<or> 2 ^ (k - 1) < m_Size v)"
    and "fits sizeof_T (2 * (m_Size v + length xs))"
  shows "\<exists>h' v'. PushBack_all sizeof_T h v (map Local xs) = Return (h', v') () \<and>
           valid h' v' \<and> elems h' v' = elems h v @ xs \<and>
           m_Size v' = m_Size v + length xs \<and>
           (\<exists>k. m_Capacity v' = 2 ^ k \<and> (k = 0 \<or> 2 ^ (k - 1) < m_Size v'))"
  using assms
proof (induction xs arbitrary: h v)
  case Nil
  then show ?case by simp
next
  case (Cons x xs)
  have le: "m_Size v \<le> m_Capacity v"
    using validD [OF Cons.prems(1)] by auto
  have "fits sizeof_T (m_Capacity v * 2)" if "m_Size v = m_Capacity v"
    using Cons.prems(4) by (rule fits_mono) (simp add: that [symmetric])
  then have "m_Size v = m_Capacity v \<longrightarrow>
      outside (Local x) v \<and> fits sizeof_T (m_Capacity v * 2)"
    by (simp add: outside_def)
  from PushBack_returns [OF Cons.prems(1,2) _ this, of x]
  obtain h1 v1 where p: "PushBack sizeof_T h v (Local x) = Return (h1, v1) ()" "valid h1 v1"
    "elems h1 v1 = elems h v @ [x]" "m_Size v1 = Suc (m_Size v)"
    "m_Capacity v1 = (if m_Size v = m_Capacity v then m_Capacity v * 2 else m_Capacity v)"
    by (auto simp: read_ref_def)
  have cap: "1 \<le> m_Capacity v1" using p(5) Cons.prems(2) by simp
  have dbl: "\<exists>k. m_Capacity v1 = 2 ^ k \<and> (k = 0 \<or> 2 ^ (k - 1) < m_Size v1)"
    unfolding p(4,5) using Cons.prems(3) le by (rule doubling_step)
  have fit: "fits sizeof_T (2 * (m_Size v1 + length xs))"
    using Cons.prems(4) p(4) by simp
  from Cons.IH [OF p(2) cap dbl fit]
  obtain h' v' where r: "PushBack_all sizeof_T h1 v1 (map Local xs) = Return (h', v') ()"
    "valid h' v'" "elems h' v' = elems h1 v1 @ xs" "m_Size v' = m_Size v1 + length xs"
    "\<exists>k. m_Capacity v' = 2 ^ k \<and> (k = 0 \<or> 2 ^ (k - 1) < m_Size v')"
    by blast
  have "PushBack_all sizeof_T h v (map Local (x # xs)) = Return (h', v') ()"
    using p(1) r(1) by (simp add: and_then_def)
  with r p show ?case by simp
qed

lemma least_power_of_two:
  fixes n c :: nat
  assumes "c = 2 ^ k" and "k = 0 \<or> 2 ^ (k - 1) < n" and "n \<le> 2 ^ j"
  shows "c \<le> 2 ^ j"
proof (cases "k = 0")
  case True
  with assms(1) show ?thesis by simp
next
  case False
  with assms(2) have "2 ^ (k - 1) < n" by simp
  then have "(2::nat) ^ (k - 1) < 2 ^ j" using assms(3) by (rule less_le_trans)
  then have "k - 1 < j" by simp
  with False have "k \<le> j" by simp
  with assms(1) show ?thesis by simp
qed

text \<open>
  Pushing values that are not elements of the vector. After \<open>n\<close> calls of \<^verbatim>\<open>PushBack\<close>
  on a default-constructed vector, pushing the values \<open>xs\<close> in order, with byte sizes
  that do not wrap, the size is \<open>n\<close>, \<^verbatim>\<open>operator[]\<close> and \<^verbatim>\<open>At\<close> give the \<open>i\<close>-th pushed
  value at every index \<open>i < n\<close>, and the capacity is the smallest power of two that
  is at least \<open>n\<close>.
\<close>

lemma PushBack_values_sequence:
  assumes "fits sizeof_T (max 1 (2 * length xs))"
  shows "\<exists>h0 v0 h' v'.
     Vector_default sizeof_T h = Return h0 v0 \<and>
     PushBack_all sizeof_T h0 v0 (map Local xs) = Return (h', v') () \<and>
     Size v' = length xs \<and>
     (\<forall>i<length xs. subscript h' v' i = Some (xs ! i) \<and> At h' v' i = Return (h', v') (xs ! i)) \<and>
     (\<exists>k. Capacity v' = 2 ^ k) \<and> length xs \<le> Capacity v' \<and>
     (\<forall>k. length xs \<le> 2 ^ k \<longrightarrow> Capacity v' \<le> 2 ^ k)"
proof -
  from assms have f1: "fits sizeof_T 1" by (rule fits_mono) simp
  from Vector_default_returns [OF f1, of h]
  obtain h0 v0 where d: "Vector_default sizeof_T h = Return h0 v0" "valid h0 v0"
    "elems h0 v0 = []" "m_Size v0 = 0" "m_Capacity v0 = 1"
    by blast
  have p2: "\<exists>k. m_Capacity v0 = 2 ^ k \<and> (k = 0 \<or> 2 ^ (k - 1) < m_Size v0)"
    using d(5) by (intro exI [of _ 0]) simp
  from assms have "fits sizeof_T (2 * (m_Size v0 + length xs))"
    by (rule fits_mono) (simp add: d(4))
  from PushBack_all_returns [OF d(2) _ p2 this] d
  obtain h' v' k where r: "PushBack_all sizeof_T h0 v0 (map Local xs) = Return (h', v') ()"
    "valid h' v'" "elems h' v' = xs" "m_Size v' = length xs"
    "m_Capacity v' = 2 ^ k" "k = 0 \<or> 2 ^ (k - 1) < m_Size v'"
    by auto
  have "subscript h' v' i = Some (xs ! i) \<and> At h' v' i = Return (h', v') (xs ! i)"
    if "i < length xs" for i
    using subscript_valid [OF r(2), of i] that r(3,4)
    by (simp add: At_def subscript_def)
  moreover have "length xs \<le> Capacity v'"
    using validD [OF r(2)] r(4) by (auto simp: Capacity_def)
  moreover have "Capacity v' \<le> 2 ^ j" if "length xs \<le> 2 ^ j" for j
    using least_power_of_two [OF r(5,6)] that r(4) by (simp add: Capacity_def)
  ultimately show ?thesis
    using d(1) r(1,4,5) by (auto simp: Size_def Capacity_def)
qed

text \<open>Five pushes on a default-constructed vector of 4-byte integers: capacity 8.\<close>

lemma five_pushes:
  "(case Vector_default 4 empty_machine of
      Return h0 v0 \<Rightarrow> PushBack_all 4 h0 v0 [Local 1, Local 2, Local 3, Local 4, Local 5]
    | _ \<Rightarrow> Undefined) =
   Return (\<lparr>blocks = [None, None, None,
                       Some [Some 1, Some 2, Some 3, Some 4, Some (5 :: int), None, None, None]],
            cout = []\<rparr>,
           \<lparr>m_Data = Pointer 4 0, m_Size = 5, m_Capacity = 8\<rparr>) ()"
  by (simp add: run_simps) (simp add: eval_nat_numeral)

text \<open>
  Claim C4 says that after every sequence of \<open>n\<close> \<^verbatim>\<open>PushBack\<close> calls on a
  default-constructed vector \<^verbatim>\<open>operator[]\<close> and \<^verbatim>\<open>At\<close> give the \<open>i\<close>-th pushed value. The
  code misses the push of an element of the vector itself onto a full vector:
  \<^verbatim>\<open>Vector<char> v; v.PushBack('A'); v.PushBack(v[0]);\<close>. The first push fills the
  single slot. The second is given a reference to that slot; \<^verbatim>\<open>Reallocate\<close> moves the
  element out, destroys it and frees the buffer, and only then does \<^verbatim>\<open>PushBack\<close>
  construct the new element from the reference: a read of freed storage, where the
  claim has the value \<open>A\<close> pushed. Pushing the value \<open>A\<close> itself returns.
\<close>

theorem PushBack_own_element:
  "Vector_default 1 empty_machine =
     Return \<lparr>blocks = [Some [None]], cout = []\<rparr>
       \<lparr>m_Data = Pointer 1 0, m_Size = 0, m_Capacity = 1\<rparr> \<and>
   PushBack 1 \<lparr>blocks = [Some [None]], cout = []\<rparr>
     \<lparr>m_Data = Pointer 1 0, m_Size = 0, m_Capacity = 1\<rparr> (Local CHR ''A'') =
     Return (A_machine, A_vector) () \<and>
   ptr_add (m_Data A_vector) 0 = Pointer 1 0 \<and>
   subscript A_machine A_vector 0 = Some CHR ''A'' \<and>
   PushBack 1 A_machine A_vector (Stored (Pointer 1 0)) = Undefined \<and>
   PushBack 1 A_machine A_vector (Local CHR ''A'') =
     Return (\<lparr>blocks = [None, Some [Some CHR ''A'', Some CHR ''A'']], cout = []\<rparr>,
             \<lparr>m_Data = Pointer 2 0, m_Size = 2, m_Capacity = 2\<rparr>) ()"
  by (simp add: run_simps subscript_def A_machine_def A_vector_def)
    (simp add: eval_nat_numeral)

section \<open>Inserting at a position\<close>

lemma to_SizeType_int [simp]: "to_SizeType (int k) = k"
  by (simp add: to_SizeType_def)

lemma shift_up_step:
  assumes "k < i" and "i < length b"
  shows "take (Suc k) (b[i := b ! (i - 1)]) @
           take (i - 1 - k) (drop k (b[i := b ! (i - 1)])) @ drop i (b[i := b ! (i - 1)]) =
         take (Suc k) b @ take (i - k) (drop k b) @ drop (Suc i) b"
proof -
  let ?y = "b ! (i - 1)"
  have 1: "take (Suc k) (b[i := ?y]) = take (Suc k) b"
    using assms by simp
  have 2: "take (i - 1 - k) (drop k (b[i := ?y])) = take (i - 1 - k) (drop k b)"
    using assms by (simp add: drop_update_swap)
  have 3: "drop i (b[i := ?y]) = ?y # drop (Suc i) b"
    using assms by (simp add: Cons_nth_drop_Suc [symmetric])
  have "i - k = Suc (i - 1 - k)" using assms by simp
  then have 4: "take (i - k) (drop k b) = take (i - 1 - k) (drop k b) @ [?y]"
    using assms by (simp add: take_Suc_conv_app_nth)
  show ?thesis unfolding 1 2 3 4 by simp
qed

lemma Insert_move_loop_blocks:
  assumes "m_Data v = Pointer r 0" and "block_at h r = Some b" and "i < length b"
    and "k \<le> i" and "\<forall>j. k \<le> j \<and> j < i \<longrightarrow> b ! j \<noteq> None"
  shows "\<exists>h'. Insert_move_loop h v (int k) i = Some h' \<and>
           block_at h' = (block_at h)
             (r := Some (take (Suc k) b @ take (i - k) (drop k b) @ drop (Suc i) b)) \<and>
           cout h' = cout h \<and> length (blocks h') = length (blocks h)"
  using assms
proof (induction "i - k" arbitrary: i h b)
  case 0
  then have "i = k" by simp
  with 0 show ?case
    by (subst Insert_move_loop.simps) (auto simp: fun_eq_iff)
next
  case (Suc d)
  then have i: "k < i" by simp
  have "b ! (i - 1) \<noteq> None"
    using Suc.prems(5) [rule_format, of "i - 1"] i by simp
  then obtain x where x: "b ! (i - 1) = Some x" by auto
  have ld: "load h (Pointer r (int (i - 1))) = Some x"
    using load_block [OF Suc.prems(2), of "i - 1"] Suc.prems(3) x by simp
  from write_slot_block [OF Suc.prems(2,3), of "Some x"]
  obtain h1 where h1: "construct h (Pointer r (int i)) x = Some h1"
    "block_at h1 = (block_at h)(r := Some (b[i := Some x]))"
    "cout h1 = cout h" "length (blocks h1) = length (blocks h)"
    by (auto simp: construct_def)
  let ?b1 = "b[i := Some x]"
  have "\<exists>h'. Insert_move_loop h1 v (int k) (i - 1) = Some h' \<and>
           block_at h' = (block_at h1)
             (r := Some (take (Suc k) ?b1 @ take (i - 1 - k) (drop k ?b1) @
                         drop (Suc (i - 1)) ?b1)) \<and>
           cout h' = cout h1 \<and> length (blocks h') = length (blocks h1)"
  proof (rule Suc.hyps(1))
    show "d = i - 1 - k" using Suc.hyps(2) by simp
    show "m_Data v = Pointer r 0" by fact
    show "block_at h1 r = Some ?b1" using h1 by simp
    show "i - 1 < length ?b1" using Suc.prems i by simp
    show "k \<le> i - 1" using i by simp
    show "\<forall>j. k \<le> j \<and> j < i - 1 \<longrightarrow> ?b1 ! j \<noteq> None"
      using Suc.prems by auto
  qed
  then obtain h' where h': "Insert_move_loop h1 v (int k) (i - 1) = Some h'"
    "block_at h' = (block_at h1)
             (r := Some (take (Suc k) ?b1 @ take (i - 1 - k) (drop k ?b1) @ drop i ?b1))"
    "cout h' = cout h1" "length (blocks h') = length (blocks h1)"
    using i by auto
  have run: "Insert_move_loop h v (int k) i = Some h'"
    using i ld h1(1) h'(1) Suc.prems(1)
    by (subst Insert_move_loop.simps) simp
  have "block_at h' = (block_at h)
             (r := Some (take (Suc k) b @ take (i - k) (drop k b) @ drop (Suc i) b))"
    unfolding h'(2) h1(2)
    using shift_up_step [OF i Suc.prems(3)] x by simp
  with run h' h1 show ?case by simp
qed

lemma take_prefix: "length xs = n \<Longrightarrow> take n (xs @ ys) = xs"
  by auto

lemma inserted_block:
  assumes "k \<le> n" and "n < length b"
  shows "take (Suc n) ((take (Suc k) b @ take (n - k) (drop k b) @ drop (Suc n) b)[k := s]) =
         take k b @ s # take (n - k) (drop k b)"
proof -
  have "(take (Suc k) b)[k := s] = take k b @ [s]"
    using list_update_length [of "take k b" "b ! k" "[]" s] assms
    by (simp add: take_Suc_conv_app_nth)
  then have e: "(take (Suc k) b @ take (n - k) (drop k b) @ drop (Suc n) b)[k := s] =
      (take k b @ s # take (n - k) (drop k b)) @ drop (Suc n) b"
    using assms by (simp add: list_update_append1)
  have "length (take k b @ s # take (n - k) (drop k b)) = Suc n"
    using assms by simp
  then show ?thesis unfolding e by (rule take_prefix)
qed

lemma Insert_place:
  assumes "valid h v" and "m_Size v < m_Capacity v" and "k < m_Size v"
    and "m_Data v = Pointer r 0" and "block_at h r = Some b"
    and "block_at h1 = (block_at h)
           (r := Some (take (Suc k) b @ take (m_Size v - k) (drop k b) @ drop (Suc (m_Size v)) b))"
    and "length (blocks h1) = length (blocks h)"
  shows "\<exists>h'. assign h1 (ptr_add (m_Data v) (int k)) x = Some h' \<and>
           valid h' (v\<lparr>m_Size := m_Size v + 1\<rparr>) \<and>
           elems h' (v\<lparr>m_Size := m_Size v + 1\<rparr>) =
             take k (elems h v) @ x # drop k (elems h v) \<and>
           kept h h' (region (m_Data v)) \<and> length (blocks h') = length (blocks h)"
proof -
  let ?n = "m_Size v"
  let ?b1 = "take (Suc k) b @ take (?n - k) (drop k b) @ drop (Suc ?n) b"
  let ?v' = "v\<lparr>m_Size := ?n + 1\<rparr>"
  have kn: "k \<le> ?n" using assms(3) by simp
  from assms(1,4,5) have v: "length b = m_Capacity v"
    "list_all (\<lambda>s. s \<noteq> None) (take ?n b)"
    by (simp_all add: valid_def)
  have n: "?n < length b" using assms(2) v by simp
  have len: "length ?b1 = length b" using kn n by simp
  have b1: "block_at h1 r = Some ?b1" using assms(6) by simp
  have "b ! k \<noteq> None"
    using v(2) assms(3) n by (simp add: list_all_length)
  moreover have "?b1 ! k = b ! k"
    using assms(3) n by (simp add: nth_append)
  ultimately have "?b1 ! k \<noteq> None" by simp
  moreover have "k < length ?b1" using len n assms(3) by simp
  ultimately obtain h' where h': "assign h1 (Pointer r (int k)) x = Some h'"
    "block_at h' = (block_at h1)(r := Some (?b1[k := Some x]))"
    "length (blocks h') = length (blocks h1)"
    using assign_block [OF b1, of k x] by blast
  have b': "block_at h' r = Some (?b1[k := Some x])" using h'(2) by simp
  have tk: "take (Suc ?n) (?b1[k := Some x]) = take k b @ Some x # take (?n - k) (drop k b)"
    using kn n by (rule inserted_block)
  have split: "take ?n b = take k b @ take (?n - k) (drop k b)"
    using kn take_add [of k "?n - k" b] by simp
  have "valid h' ?v'"
    using assms(2,4) b' v len tk split by (simp add: valid_def)
  moreover have "elems h' ?v' = take k (elems h v) @ x # drop k (elems h v)"
    using kn assms(4) tk
    by (simp add: elems_block [OF _ b'] elems_block [OF assms(4,5)] take_map drop_map
        drop_take min_absorb1)
  moreover have "kept h h' (region (m_Data v))"
    using assms(4,6,7) h' by (simp add: kept_def)
  ultimately show ?thesis using h' assms(4,7) by simp
qed

lemma Insert_move_free:
  assumes "valid h v" and "m_Size v < m_Capacity v" and "k < m_Size v"
    and "read_ref h val = Some x" and "outside val v"
  shows "\<exists>h'. do {
               h \<leftarrow> Insert_move_loop h v (int k) (m_Size v);
               x \<leftarrow> read_ref h val;
               assign h (ptr_add (m_Data v) (int k)) x
             } = Some h' \<and>
           valid h' (v\<lparr>m_Size := m_Size v + 1\<rparr>) \<and>
           elems h' (v\<lparr>m_Size := m_Size v + 1\<rparr>) =
             take k (elems h v) @ x # drop k (elems h v) \<and>
           kept h h' (region (m_Data v)) \<and> length (blocks h') = length (blocks h)"
proof -
  from validD [OF assms(1)] obtain r b where v: "m_Data v = Pointer r 0"
    "block_at h r = Some b" "length b = m_Capacity v" "m_Size v \<le> m_Capacity v"
    "\<forall>j<m_Size v. b ! j \<noteq> None"
    by blast
  have "\<exists>h1. Insert_move_loop h v (int k) (m_Size v) = Some h1 \<and>
           block_at h1 = (block_at h)
             (r := Some (take (Suc k) b @ take (m_Size v - k) (drop k b) @
                         drop (Suc (m_Size v)) b)) \<and>
           cout h1 = cout h \<and> length (blocks h1) = length (blocks h)"
    using v assms by (intro Insert_move_loop_blocks) auto
  then obtain h1 where h1: "Insert_move_loop h v (int k) (m_Size v) = Some h1"
    "block_at h1 = (block_at h)
             (r := Some (take (Suc k) b @ take (m_Size v - k) (drop k b) @
                         drop (Suc (m_Size v)) b))"
    "length (blocks h1) = length (blocks h)"
    by blast
  have "kept h h1 (region (m_Data v))"
    using v(1) h1(2,3) by (simp add: kept_def)
  from read_ref_kept [OF this assms(5,4)] have rd: "read_ref h1 val = Some x" .
  from Insert_place [OF assms(1,2,3) v(1,2) h1(2,3), of x] h1(1) rd
  show ?thesis by simp
qed

lemma distance_from_Begin:
  "m_Ptr position = ptr_add (m_Data v) (int k) \<Longrightarrow> distance position (Begin v) = Some (int k)"
  by (simp add: distance_def Begin_def Iterator_of_def ptr_diff_def ptr_add_def)

lemma grow_returns:
  assumes "valid h v" and "1 \<le> m_Capacity v"
    and "m_Size v = m_Capacity v \<longrightarrow> fits sizeof_T (m_Capacity v * 2)"
  shows "\<exists>h1 v1.
           (if m_Size v = m_Capacity v then Reallocate sizeof_T h v (m_Capacity v * 2)
            else Return (h, v) ()) = Return (h1, v1) () \<and>
           valid h1 v1 \<and> elems h1 v1 = elems h v \<and> m_Size v1 = m_Size v \<and>
           m_Size v1 < m_Capacity v1 \<and>
           m_Capacity v1 =
             (if m_Size v = m_Capacity v then m_Capacity v * 2 else m_Capacity v) \<and>
           kept h h1 (region (m_Data v)) \<and>
           (region (m_Data v1) = region (m_Data v) \<and> length (blocks h1) = length (blocks h) \<or>
            length (blocks h) < region (m_Data v1))"
proof (cases "m_Size v = m_Capacity v")
  case True
  with assms(3) have f: "fits sizeof_T (m_Capacity v * 2)" by simp
  then have "fits sizeof_T (m_Capacity v)" by (rule fits_mono) simp
  from Reallocate_returns [OF assms(1) _ this f] True assms(2)
  show ?thesis by auto
next
  case False
  with validD [OF assms(1)] have "m_Size v < m_Capacity v" by auto
  with False assms show ?thesis by (simp add: kept_refl)
qed

lemma outside_fresh:
  assumes "read_ref h val = Some x" and "length (blocks h) < region (m_Data w)"
  shows "outside val w"
proof (cases val)
  case (Local y)
  then show ?thesis by (simp add: outside_def)
next
  case (Stored p)
  with assms(1) obtain b where "block_at h (region p) = Some b"
    by (auto simp: read_ref_def load_def slot_at_def split: option.splits)
  from block_at_Some_le [OF this] assms(2) Stored show ?thesis
    by (simp add: outside_def)
qed

text \<open>
  What \<^verbatim>\<open>Insert(Iterator position, ValueType&& value)\<close> does where the code is
  defined: before an element (\<open>k < n\<close>), for a value that is not an element of the
  vector itself, on a vector with valid storage and capacity at least 1, with byte
  sizes that do not wrap.
\<close>

lemma Insert_move_returns:
  assumes "valid h v" and "1 \<le> m_Capacity v" and "k < m_Size v"
    and "m_Ptr position = ptr_add (m_Data v) (int k)"
    and "read_ref h val = Some x" and "outside val v"
    and "m_Size v = m_Capacity v \<longrightarrow> fits sizeof_T (m_Capacity v * 2)"
  shows "\<exists>h' v'. Insert_move sizeof_T h v position val = Return (h', v') () \<and> valid h' v' \<and>
           elems h' v' = take k (elems h v) @ x # drop k (elems h v) \<and>
           m_Size v' = Suc (m_Size v) \<and>
           m_Capacity v' =
             (if m_Size v = m_Capacity v then m_Capacity v * 2 else m_Capacity v) \<and>
           kept h h' (region (m_Data v))"
proof -
  from grow_returns [OF assms(1,2,7)]
  obtain h1 v1 where g:
    "(if m_Size v = m_Capacity v then Reallocate sizeof_T h v (m_Capacity v * 2)
      else Return (h, v) ()) = Return (h1, v1) ()"
    "valid h1 v1" "elems h1 v1 = elems h v" "m_Size v1 = m_Size v"
    "m_Size v1 < m_Capacity v1"
    "m_Capacity v1 = (if m_Size v = m_Capacity v then m_Capacity v * 2 else m_Capacity v)"
    "kept h h1 (region (m_Data v))"
    "region (m_Data v1) = region (m_Data v) \<and> length (blocks h1) = length (blocks h) \<or>
     length (blocks h) < region (m_Data v1)"
    by blast
  from assms(3) g(4) have k: "k < m_Size v1" by simp
  from read_ref_kept [OF g(7) assms(6,5)] have rd: "read_ref h1 val = Some x" .
  have out: "outside val v1"
  proof (cases "region (m_Data v1) = region (m_Data v)")
    case True
    with assms(6) show ?thesis by (cases val) (simp_all add: outside_def)
  next
    case False
    with g(8) have "length (blocks h) < region (m_Data v1)" by simp
    with assms(5) show ?thesis by (rule outside_fresh)
  qed
  from Insert_move_free [OF g(2,5) k rd out]
  obtain h' where i: "do {
               h \<leftarrow> Insert_move_loop h1 v1 (int k) (m_Size v1);
               x \<leftarrow> read_ref h val;
               assign h (ptr_add (m_Data v1) (int k)) x
             } = Some h'"
    "valid h' (v1\<lparr>m_Size := m_Size v1 + 1\<rparr>)"
    "elems h' (v1\<lparr>m_Size := m_Size v1 + 1\<rparr>) = take k (elems h1 v1) @ x # drop k (elems h1 v1)"
    "kept h1 h' (region (m_Data v1))" "length (blocks h') = length (blocks h1)"
    by blast
  have "Insert_move sizeof_T h v position val = Return (h', v1\<lparr>m_Size := m_Size v1 + 1\<rparr>) ()"
    using distance_from_Begin [OF assms(4)] g(1) i(1)
    by (simp add: Insert_move_def and_then_def)
  moreover have "kept h h' (region (m_Data v))"
    using g(8) by (intro kept_trans [OF g(7) i(4)]) auto
  ultimately show ?thesis
    using i g by auto
qed

lemma Iterator_plus_Begin: "m_Ptr (Iterator_plus (Begin v) n) = ptr_add (m_Data v) n"
  by (simp add: Iterator_plus_def plus_assign_def Begin_def Iterator_of_def Let_def)

text \<open>
  Claim C5 says that \<^verbatim>\<open>Insert(position, x)\<close> at index \<open>k \<le> n\<close> of \<open>e\<^sub>0 \<dots> e\<^sub>n\<^sub>-\<^sub>1\<close> gives
  \<open>e\<^sub>0 \<dots> e\<^sub>k\<^sub>-\<^sub>1\<close>, \<open>x\<close>, \<open>e\<^sub>k \<dots> e\<^sub>n\<^sub>-\<^sub>1\<close>. On the vector of characters \<open>v\<close> that holds \<open>A\<close>,
  \<open>B\<close>, \<open>C\<close> in a buffer of four slots the code does otherwise, in three ways.

  \<^item> \<^verbatim>\<open>v.Insert(v.Begin() + 1, std::move(v[2]))\<close>: the value to insert is \<open>C\<close>, and the
    claim has \<open>A\<close>, \<open>C\<close>, \<open>B\<close>, \<open>C\<close>. The code reads the reference after it has shifted
    the elements, when the slot at index 2 holds \<open>B\<close>, and leaves \<open>A\<close>, \<open>B\<close>, \<open>B\<close>, \<open>C\<close>.
  \<^item> \<^verbatim>\<open>Insert(Iterator, ConstReference)\<close> with \<open>X\<close> at index 1: the loop prints
    \<^verbatim>\<open>m_Data[m_Size]\<close>, a slot that holds no element, before it constructs one there.
  \<^item> \<^verbatim>\<open>Insert\<close> of \<open>X\<close> at index 3, the end: the loop does not run and the code assigns to
    \<^verbatim>\<open>m_Data[m_Size]\<close>, a slot that holds no element, instead of constructing one.

  \<^verbatim>\<open>Insert(Iterator, ValueType&&)\<close> of \<open>X\<close> at index 1 gives \<open>A\<close>, \<open>X\<close>, \<open>B\<close>, \<open>C\<close>.
\<close>

theorem Insert_shifts_before_reading:
  "ptr_add (m_Data ABC_vector) 2 = Pointer 3 2 \<and>
   subscript ABC_machine ABC_vector 2 = Some CHR ''C'' \<and>
   Insert_move 1 ABC_machine ABC_vector (Iterator_plus (Begin ABC_vector) 1)
     (Stored (Pointer 3 2)) =
     Return (\<lparr>blocks = [None, None,
                         Some [Some CHR ''A'', Some CHR ''B'', Some CHR ''B'', Some CHR ''C'']],
              cout = []\<rparr>,
             \<lparr>m_Data = Pointer 3 0, m_Size = 4, m_Capacity = 4\<rparr>) () \<and>
   Insert_copy 1 ABC_machine ABC_vector (Iterator_plus (Begin ABC_vector) 1)
     (Local CHR ''X'') = Undefined \<and>
   Insert_copy 1 ABC_machine ABC_vector (Iterator_plus (Begin ABC_vector) 3)
     (Local CHR ''X'') = Undefined \<and>
   Insert_move 1 ABC_machine ABC_vector (Iterator_plus (Begin ABC_vector) 3)
     (Local CHR ''X'') = Undefined \<and>
   Insert_move 1 ABC_machine ABC_vector (Iterator_plus (Begin ABC_vector) 1)
     (Local CHR ''X'') =
     Return (\<lparr>blocks = [None, None,
                         Some [Some CHR ''A'', Some CHR ''X'', Some CHR ''B'', Some CHR ''C'']],
              cout = []\<rparr>,
             \<lparr>m_Data = Pointer 3 0, m_Size = 4, m_Capacity = 4\<rparr>) ()"
  by (simp add: run_simps subscript_def ABC_machine_def ABC_vector_def)

section \<open>Erasing at a position\<close>

lemma shift_down_step:
  assumes "Suc i < n" and "n \<le> length b"
  shows "take (Suc i) (b[i := b ! Suc i]) @
           take (n - 1 - Suc i) (drop (Suc (Suc i)) (b[i := b ! Suc i])) @
           drop (n - 1) (b[i := b ! Suc i]) =
         take i b @ take (n - 1 - i) (drop (Suc i) b) @ drop (n - 1) b"
proof -
  let ?y = "b ! Suc i"
  have 1: "take (Suc i) (b[i := ?y]) = take i b @ [?y]"
    using assms by (simp add: take_Suc_conv_app_nth)
  have 2: "drop (Suc (Suc i)) (b[i := ?y]) = drop (Suc (Suc i)) b"
    by simp
  have 3: "drop (n - 1) (b[i := ?y]) = drop (n - 1) b"
    using assms by simp
  have "n - 1 - i = Suc (n - 1 - Suc i)" using assms by simp
  moreover have "drop (Suc i) b = ?y # drop (Suc (Suc i)) b"
    using assms by (simp add: Cons_nth_drop_Suc)
  ultimately have 4: "take (n - 1 - i) (drop (Suc i) b) =
      ?y # take (n - 1 - Suc i) (drop (Suc (Suc i)) b)"
    by simp
  show ?thesis unfolding 1 2 3 4 by simp
qed

lemma Erase_loop_blocks:
  assumes "m_Data v = Pointer r 0" and "block_at h r = Some b" and "m_Size v \<le> length b"
    and "i < m_Size v" and "\<forall>j. i < j \<and> j < m_Size v \<longrightarrow> b ! j \<noteq> None"
  shows "\<exists>h'. Erase_loop h v i = Some h' \<and>
           block_at h' = (block_at h)
             (r := Some (take i b @ take (m_Size v - 1 - i) (drop (Suc i) b) @
                         drop (m_Size v - 1) b)) \<and>
           cout h' = cout h \<and> length (blocks h') = length (blocks h)"
  using assms
proof (induction "m_Size v - 1 - i" arbitrary: i h b)
  case 0
  then have i: "i = m_Size v - 1" "0 < m_Size v" by simp_all
  then have bound: "to_SizeType (int (m_Size v) - 1) = m_Size v - 1"
    using to_SizeType_int [of "m_Size v - 1"] by (simp add: of_nat_diff)
  have "take i b @ drop i b = b" by simp
  with 0 i bound show ?case
    by (subst Erase_loop.simps) (auto simp: fun_eq_iff)
next
  case (Suc d)
  then have i: "Suc i < m_Size v" by simp
  then have bound: "to_SizeType (int (m_Size v) - 1) = m_Size v - 1"
    using to_SizeType_int [of "m_Size v - 1"] by (simp add: of_nat_diff)
  have "b ! Suc i \<noteq> None"
    using Suc.prems(5) [rule_format, of "Suc i"] i by simp
  then obtain x where x: "b ! Suc i = Some x" by auto
  have ld: "load h (Pointer r (int (Suc i))) = Some x"
    using load_block [OF Suc.prems(2), of "Suc i"] Suc.prems(3) i x by simp
  have il: "i < length b" using i Suc.prems(3) by simp
  from write_slot_block [OF Suc.prems(2) il, of "Some x"]
  obtain h1 where h1: "construct h (Pointer r (int i)) x = Some h1"
    "block_at h1 = (block_at h)(r := Some (b[i := Some x]))"
    "cout h1 = cout h" "length (blocks h1) = length (blocks h)"
    by (auto simp: construct_def)
  let ?b1 = "b[i := Some x]"
  have "\<exists>h'. Erase_loop h1 v (Suc i) = Some h' \<and>
           block_at h' = (block_at h1)
             (r := Some (take (Suc i) ?b1 @ take (m_Size v - 1 - Suc i) (drop (Suc (Suc i)) ?b1) @
                         drop (m_Size v - 1) ?b1)) \<and>
           cout h' = cout h1 \<and> length (blocks h') = length (blocks h1)"
  proof (rule Suc.hyps(1))
    show "d = m_Size v - 1 - Suc i" using Suc.hyps(2) by simp
    show "m_Data v = Pointer r 0" by fact
    show "block_at h1 r = Some ?b1" using h1 by simp
    show "m_Size v \<le> length ?b1" using Suc.prems by simp
    show "Suc i < m_Size v" by fact
    show "\<forall>j. Suc i < j \<and> j < m_Size v \<longrightarrow> ?b1 ! j \<noteq> None"
      using Suc.prems by auto
  qed
  then obtain h' where h': "Erase_loop h1 v (Suc i) = Some h'"
    "block_at h' = (block_at h1)
             (r := Some (take (Suc i) ?b1 @ take (m_Size v - 1 - Suc i) (drop (Suc (Suc i)) ?b1) @
                         drop (m_Size v - 1) ?b1))"
    "cout h' = cout h1" "length (blocks h') = length (blocks h1)"
    by auto
  have run: "Erase_loop h v i = Some h'"
    using i bound ld h1(1) h'(1) Suc.prems(1)
    by (subst Erase_loop.simps) simp
  have "block_at h' = (block_at h)
             (r := Some (take i b @ take (m_Size v - 1 - i) (drop (Suc i) b) @
                         drop (m_Size v - 1) b))"
    unfolding h'(2) h1(2)
    using shift_down_step [OF i Suc.prems(3)] x by simp
  with run h' h1 show ?case by simp
qed

lemma erased_block:
  assumes "k < n" and "n \<le> length b"
  shows "take (n - 1) (take k b @ take (n - 1 - k) (drop (Suc k) b) @ drop (n - 1) b) =
         take k b @ take (n - 1 - k) (drop (Suc k) b)"
proof -
  have "length (take k b @ take (n - 1 - k) (drop (Suc k) b)) = n - 1"
    using assms by simp
  then have "take (n - 1) ((take k b @ take (n - 1 - k) (drop (Suc k) b)) @ drop (n - 1) b) =
      take k b @ take (n - 1 - k) (drop (Suc k) b)"
    by (rule take_prefix)
  then show ?thesis by (simp only: append_assoc)
qed

lemma Erase_returns:
  assumes "valid h v" and "k < m_Size v"
    and "m_Ptr position = ptr_add (m_Data v) (int k)"
  shows "\<exists>h'. Erase h v position = Return (h', v\<lparr>m_Size := m_Size v - 1\<rparr>) () \<and>
           valid h' (v\<lparr>m_Size := m_Size v - 1\<rparr>) \<and>
           elems h' (v\<lparr>m_Size := m_Size v - 1\<rparr>) =
             take k (elems h v) @ drop (Suc k) (elems h v) \<and>
           kept h h' (region (m_Data v)) \<and> length (blocks h') = length (blocks h)"
proof -
  from validD [OF assms(1)] obtain r b where v: "m_Data v = Pointer r 0"
    "block_at h r = Some b" "length b = m_Capacity v" "m_Size v \<le> m_Capacity v"
    "\<forall>j<m_Size v. b ! j \<noteq> None"
    by blast
  let ?n = "m_Size v"
  let ?v' = "v\<lparr>m_Size := ?n - 1\<rparr>"
  let ?b' = "take k b @ take (?n - 1 - k) (drop (Suc k) b) @ drop (?n - 1) b"
  have n: "?n \<le> length b" using v by simp
  have bound: "to_SizeType (int ?n - 1) = ?n - 1"
    using to_SizeType_int [of "?n - 1"] assms(2) by (simp add: of_nat_diff)
  have "\<exists>h'. Erase_loop h v k = Some h' \<and> block_at h' = (block_at h)(r := Some ?b') \<and>
           cout h' = cout h \<and> length (blocks h') = length (blocks h)"
    using v assms(2) n by (intro Erase_loop_blocks) auto
  then obtain h' where h': "Erase_loop h v k = Some h'"
    "block_at h' = (block_at h)(r := Some ?b')" "length (blocks h') = length (blocks h)"
    by blast
  have b': "block_at h' r = Some ?b'" using h'(2) by simp
  have run: "Erase h v position = Return (h', ?v') ()"
    using distance_from_Begin [OF assms(3)] h'(1) bound by (simp add: Erase_def)
  have len: "length ?b' = length b" using assms(2) n by simp
  have tk: "take (?n - 1) ?b' = take k b @ take (?n - 1 - k) (drop (Suc k) b)"
    using assms(2) n by (rule erased_block)
  from assms(1) v(1,2) have live: "list_all (\<lambda>s. s \<noteq> None) (take ?n b)"
    by (simp add: valid_def)
  have split: "take ?n b = take k b @ b ! k # take (?n - 1 - k) (drop (Suc k) b)"
  proof -
    have "take ?n b = take k b @ take (?n - k) (drop k b)"
      using assms(2) take_add [of k "?n - k" b] by simp
    moreover have "drop k b = b ! k # drop (Suc k) b"
      using assms(2) n by (simp add: Cons_nth_drop_Suc)
    moreover have "?n - k = Suc (?n - 1 - k)" using assms(2) by simp
    ultimately show ?thesis by simp
  qed
  have "valid h' ?v'"
    using v(1,3,4) b' len tk live split by (simp add: valid_def)
  moreover have "elems h' ?v' = take k (elems h v) @ drop (Suc k) (elems h v)"
  proof -
    have "take k (take ?n b) = take k b" using assms(2) by (simp add: min_absorb1)
    moreover have "drop (Suc k) (take ?n b) = take (?n - 1 - k) (drop (Suc k) b)"
      by (simp add: drop_take)
    ultimately show ?thesis
      using v(1) tk
      by (simp add: elems_block [OF _ b'] elems_block [OF v(1,2)] take_map drop_map)
  qed
  moreover have "kept h h' (region (m_Data v))"
    using v(1) h' by (simp add: kept_def)
  ultimately show ?thesis using run h' by simp
qed

text \<open>
  Claim C6. On a vector that holds \<open>e\<^sub>0 \<dots> e\<^sub>n\<^sub>-\<^sub>1\<close> and satisfies the storage
  invariant, \<^verbatim>\<open>Erase\<close> with the cursor \<^verbatim>\<open>Begin() + k\<close>, \<open>k < n\<close>, returns; afterwards
  the size is \<open>n - 1\<close> and the elements are \<open>e\<^sub>0 \<dots> e\<^sub>k\<^sub>-\<^sub>1\<close>, \<open>e\<^sub>k\<^sub>+\<^sub>1 \<dots> e\<^sub>n\<^sub>-\<^sub>1\<close>.
\<close>

theorem Erase_at_position:
  assumes "valid h v" and "k < Size v"
  shows "\<exists>h' v'. Erase h v (Iterator_plus (Begin v) (int k)) = Return (h', v') () \<and>
           valid h' v' \<and> Size v' = Size v - 1 \<and> Capacity v' = Capacity v \<and>
           elems h' v' = take k (elems h v) @ drop (Suc k) (elems h v)"
proof -
  have "k < m_Size v" using assms(2) by (simp add: Size_def)
  from Erase_returns [OF assms(1) this Iterator_plus_Begin]
  show ?thesis
    by (auto simp: Size_def Capacity_def)
qed

theorem Erase_at_position_witness:
  "valid ABC_machine ABC_vector \<and> 1 < Size ABC_vector \<and>
   (\<exists>h' v'. Erase ABC_machine ABC_vector (Iterator_plus (Begin ABC_vector) 1)
              = Return (h', v') () \<and>
      Size v' = 2 \<and> elems h' v' = [CHR ''A'', CHR ''C''])"
proof -
  have s: "Size ABC_vector = 3"
    by (simp add: Size_def ABC_vector_def)
  then have "1 < Size ABC_vector" by simp
  from Erase_at_position [OF ABC_valid this] ABC_valid s ABC_elems
  show ?thesis by auto
qed

section \<open>The invariant of the states between operations\<close>







lemma Clear_outcome:
  "Clear h v = Return (h', v') u \<Longrightarrow> m_Capacity v' = m_Capacity v"
  "Clear h v \<noteq> Throw s e"
  by (auto simp: Clear_def split: option.splits)
















lemma moved_state:
  "(case Vector_default 1 empty_machine of
      Return h v \<Rightarrow>
        (case PushBack 1 h v (Local CHR ''A'') of
           Return (h, v) u \<Rightarrow> Vector_move 1 h v
         | _ \<Rightarrow> Undefined)
    | _ \<Rightarrow> Undefined) =
   Return (moved_machine, moved_from) A_vector"
  by (simp add: run_simps moved_machine_def moved_from_def A_vector_def)


text \<open>
  A vector of capacity 0 is one that \<^verbatim>\<open>PushBack\<close> and \<^verbatim>\<open>Insert\<close> cannot grow: the vector
  is full, \<^verbatim>\<open>Reallocate(m_Capacity * 2)\<close> replaces the buffer of no slots by another
  buffer of no slots, and the new element is constructed or assigned past its end.
\<close>

lemma PushBack_without_capacity:
  "PushBack 1 \<lparr>blocks = [Some []], cout = []\<rparr>
     \<lparr>m_Data = Pointer 1 0, m_Size = 0, m_Capacity = 0\<rparr> (Local CHR ''A'') = Undefined \<and>
   Insert_move 1 \<lparr>blocks = [Some []], cout = []\<rparr>
     \<lparr>m_Data = Pointer 1 0, m_Size = 0, m_Capacity = 0\<rparr>
     (Begin \<lparr>m_Data = Pointer 1 0, m_Size = 0, m_Capacity = 0\<rparr>) (Local CHR ''A'')
     = Undefined"
  by (simp add: run_simps)



end
